theory Spec2Isabelle
  imports Main "HOL-Library.Sublist"
begin

section \<open>The generated Lua tokenizer (tokenizer.template.lua)\<close>

subsection \<open>Tokenizer state\<close>

text \<open>
  The fields of a \<open>Tokenizer\<close> instance as \<open>Tokenizer:initString\<close> creates them (the
  leading underscore of the Lua field names is dropped, \<open>_string\<close> is \<open>str\<close>). The two
  module-level globals \<open>yytext\<close> and \<open>yyleng\<close> that \<open>getNextToken\<close> assigns are carried in
  the same record. Offsets and line numbers are Lua integers that only ever grow from
  their initial values, so they are naturals; a column is a difference of two offsets and
  is an integer.
\<close>

record tokenizer =
  str :: string
  states :: "string list"
  cursor :: nat
  tokensQueue :: "string list"
  currentLine :: nat
  currentColumn :: int
  currentLineBeginOffset :: nat
  tokenStartOffset :: nat
  tokenEndOffset :: nat
  tokenStartLine :: nat
  tokenEndLine :: nat
  tokenStartColumn :: int
  tokenEndColumn :: int
  yytext :: string
  yyleng :: nat

definition initString :: "string \<Rightarrow> tokenizer" where
  "initString tokenizingString =
     \<lparr> str = tokenizingString,
       states = [''INITIAL''],
       cursor = 0,
       tokensQueue = [],
       currentLine = 1,
       currentColumn = 0,
       currentLineBeginOffset = 0,
       tokenStartOffset = 0,
       tokenEndOffset = 0,
       tokenStartLine = 1,
       tokenEndLine = 1,
       tokenStartColumn = 0,
       tokenEndColumn = 0,
       yytext = '''',
       yyleng = 0 \<rparr>"

subsection \<open>The stack of start conditions\<close>

text \<open>
  \<open>self._states[#self._states]\<close> is \<open>nil\<close> on an empty table; \<open>None\<close> stands for \<open>nil\<close>.
\<close>

definition getCurrentState :: "tokenizer \<Rightarrow> string option" where
  "getCurrentState t = (if states t = [] then None else Some (last (states t)))"

definition pushState :: "string \<Rightarrow> tokenizer \<Rightarrow> tokenizer" where
  "pushState state t = t\<lparr>states := states t @ [state]\<rparr>"

definition begin_state :: "string \<Rightarrow> tokenizer \<Rightarrow> tokenizer" where
  "begin_state state t = pushState state t"

text \<open>
  \<open>popState\<close> returns the removed state (\<open>table.remove\<close>) when more than one state is on
  the stack, and \<open>self._states[1]\<close> otherwise, which is \<open>nil\<close> on an empty table.
\<close>

definition popState :: "tokenizer \<Rightarrow> string option \<times> tokenizer" where
  "popState t =
     (if length (states t) > 1
      then (Some (last (states t)), t\<lparr>states := butlast (states t)\<rparr>)
      else (case states t of [] \<Rightarrow> None | s # _ \<Rightarrow> Some s, t))"

text \<open>A call of one of the three methods that change the stack, and a sequence of them.\<close>

datatype state_call = PushState string | Begin string | PopState

fun call_state :: "tokenizer \<Rightarrow> state_call \<Rightarrow> tokenizer" where
  "call_state t (PushState s) = pushState s t"
| "call_state t (Begin s) = begin_state s t"
| "call_state t PopState = snd (popState t)"

definition call_states :: "state_call list \<Rightarrow> tokenizer \<Rightarrow> tokenizer" where
  "call_states cs t = foldl call_state t cs"

subsection \<open>Lua patterns: what \<open>string.find\<close> returns\<close>

text \<open>
  \<open>Tokenizer:_match\<close> calls \<open>stringRest:find(pattern)\<close> of Lua's string library. The
  library is not code of this repository; \<open>str_find\<close> follows \<open>str_find_aux\<close> of
  \<open>lstrlib.c\<close> (Lua 5.4) and the functions it calls: \<open>match\<close>, \<open>classEnd\<close>,
  \<open>singlematch\<close>, \<open>matchbracketclass\<close>, \<open>match_class\<close>, \<open>max_expand\<close>, \<open>min_expand\<close>,
  \<open>start_capture\<close>, \<open>end_capture\<close>, \<open>match_capture\<close>, \<open>matchbalance\<close> and \<open>lmemfind\<close>.
  Character classes are those of the C locale. An error carries a message that names it;
  the position that \<open>luaL_error\<close> puts in front and the quotes of the message are left
  out.
\<close>

datatype setitem = SClass char | SRange char char | SChar char
datatype cclass = CAny | CChar char | CClass char | CSet bool "setitem list"
datatype quant = QOne | QOpt | QPlus | QStar | QMinus
datatype pitem =
    PStartCapture bool
  | PEndCapture
  | PEnd
  | PBalance char char
  | PFrontier bool "setitem list"
  | PBackref char
  | PSingle cclass quant
  | PMalformed string

definition byte :: "char \<Rightarrow> nat" where
  "byte c = of_char c"

definition isdigit :: "char \<Rightarrow> bool" where
  "isdigit c = (48 \<le> byte c \<and> byte c \<le> 57)"

definition isupper :: "char \<Rightarrow> bool" where
  "isupper c = (65 \<le> byte c \<and> byte c \<le> 90)"

definition islower :: "char \<Rightarrow> bool" where
  "islower c = (97 \<le> byte c \<and> byte c \<le> 122)"

definition isalpha :: "char \<Rightarrow> bool" where
  "isalpha c = (isupper c \<or> islower c)"

definition isalnum :: "char \<Rightarrow> bool" where
  "isalnum c = (isalpha c \<or> isdigit c)"

definition isspace :: "char \<Rightarrow> bool" where
  "isspace c = ((9 \<le> byte c \<and> byte c \<le> 13) \<or> byte c = 32)"

definition iscntrl :: "char \<Rightarrow> bool" where
  "iscntrl c = (byte c < 32 \<or> byte c = 127)"

definition isgraph :: "char \<Rightarrow> bool" where
  "isgraph c = (33 \<le> byte c \<and> byte c \<le> 126)"

definition ispunct :: "char \<Rightarrow> bool" where
  "ispunct c = (isgraph c \<and> \<not> isalnum c)"

definition isxdigit :: "char \<Rightarrow> bool" where
  "isxdigit c = (isdigit c \<or> (65 \<le> byte c \<and> byte c \<le> 70) \<or> (97 \<le> byte c \<and> byte c \<le> 102))"

definition tolower :: "char \<Rightarrow> char" where
  "tolower c = (if isupper c then char_of (byte c + 32) else c)"

definition match_class :: "char \<Rightarrow> char \<Rightarrow> bool" where
  "match_class c cl =
     (let l = tolower cl;
          neg = (\<lambda>res. if isupper cl then \<not> res else res)
      in if l = CHR ''a'' then neg (isalpha c)
         else if l = CHR ''c'' then neg (iscntrl c)
         else if l = CHR ''d'' then neg (isdigit c)
         else if l = CHR ''g'' then neg (isgraph c)
         else if l = CHR ''l'' then neg (islower c)
         else if l = CHR ''p'' then neg (ispunct c)
         else if l = CHR ''s'' then neg (isspace c)
         else if l = CHR ''u'' then neg (isupper c)
         else if l = CHR ''w'' then neg (isalnum c)
         else if l = CHR ''x'' then neg (isxdigit c)
         else cl = c)"

text \<open>
  \<open>classEnd\<close> on a set: \<open>set_body\<close> splits the pattern after \<open>[\<close> (and \<open>^\<close>) into the
  body of the set and what follows the closing \<open>]\<close>; the first character of the body is
  taken whatever it is, and \<open>%\<close> takes the character after it along. \<open>None\<close> is the error
  \<open>malformed pattern (missing ']')\<close>. \<open>set_items\<close> reads the body as \<open>matchbracketclass\<close>
  does.
\<close>

fun set_body :: "string \<Rightarrow> (string \<times> string) option" where
  "set_body [] = None"
| "set_body [c] = None"
| "set_body (c # d # ds) =
     (if c = CHR ''%''
      then (case ds of
              [] \<Rightarrow> None
            | e # es \<Rightarrow>
                if e = CHR '']'' then Some ([c, d], es)
                else map_option (\<lambda>(b, r). (c # d # b, r)) (set_body ds))
      else if d = CHR '']'' then Some ([c], ds)
      else map_option (\<lambda>(b, r). (c # b, r)) (set_body (d # ds)))"

fun set_items :: "string \<Rightarrow> setitem list" where
  "set_items [] = []"
| "set_items [c] = (if c = CHR ''%'' then [SClass (CHR '']'')] else [SChar c])"
| "set_items [c, d] = (if c = CHR ''%'' then [SClass d] else SChar c # set_items [d])"
| "set_items (c # d # e # es) =
     (if c = CHR ''%'' then SClass d # set_items (e # es)
      else if d = CHR ''-'' then SRange c e # set_items es
      else SChar c # set_items (d # e # es))"

fun match_setitem :: "char \<Rightarrow> setitem \<Rightarrow> bool" where
  "match_setitem c (SClass cl) = match_class c cl"
| "match_setitem c (SRange lo hi) = (byte lo \<le> byte c \<and> byte c \<le> byte hi)"
| "match_setitem c (SChar x) = (x = c)"

definition matchbracketclass :: "char \<Rightarrow> bool \<Rightarrow> setitem list \<Rightarrow> bool" where
  "matchbracketclass c sig items = (if list_ex (match_setitem c) items then sig else \<not> sig)"

text \<open>
  \<open>classEnd\<close>: the single-character class at the head of the pattern and the pattern after
  it, or the message of the error it raises.
\<close>

definition classEnd :: "string \<Rightarrow> string + cclass \<times> string" where
  "classEnd p =
     (case p of
        [] \<Rightarrow> Inl ''malformed pattern''
      | c # cs \<Rightarrow>
          if c = CHR ''%''
          then (case cs of [] \<Rightarrow> Inl ''malformed pattern (ends with %)''
                         | d # ds \<Rightarrow> Inr (CClass d, ds))
          else if c = CHR ''['' then
            (case (case cs of [] \<Rightarrow> (True, cs)
                            | x # xs \<Rightarrow> if x = CHR ''^'' then (False, xs) else (True, cs)) of
               (sig, body) \<Rightarrow>
                 (case set_body body of
                    None \<Rightarrow> Inl ''malformed pattern (missing ])''
                  | Some (b, r) \<Rightarrow> Inr (CSet sig (set_items b), r)))
          else if c = CHR ''.'' then Inr (CAny, cs)
          else Inr (CChar c, cs))"

fun singlematch :: "cclass \<Rightarrow> char \<Rightarrow> bool" where
  "singlematch CAny c = True"
| "singlematch (CChar x) c = (x = c)"
| "singlematch (CClass cl) c = match_class c cl"
| "singlematch (CSet sig items) c = matchbracketclass c sig items"

definition split_quant :: "string \<Rightarrow> quant \<times> string" where
  "split_quant p =
     (case p of
        [] \<Rightarrow> (QOne, [])
      | c # cs \<Rightarrow>
          if c = CHR ''?'' then (QOpt, cs)
          else if c = CHR ''+'' then (QPlus, cs)
          else if c = CHR ''*'' then (QStar, cs)
          else if c = CHR ''-'' then (QMinus, cs)
          else (QOne, p))"

text \<open>
  The items of a pattern, in the order \<open>match\<close> meets them; the switch of \<open>match\<close> decides
  what an item is from the characters at the head of the pattern alone. An item that makes
  \<open>match\<close> raise an error whatever the subject is \<open>PMalformed\<close>, and ends the list: the error
  is raised when matching reaches the item, not before. The first argument bounds the
  number of items by the length of the pattern.
\<close>

fun parse_items :: "nat \<Rightarrow> string \<Rightarrow> pitem list" where
  "parse_items 0 p = []"
| "parse_items (Suc n) [] = []"
| "parse_items (Suc n) (c # cs) =
     (if c = CHR ''('' then
        (case cs of
           [] \<Rightarrow> [PStartCapture False]
         | d # ds \<Rightarrow> if d = CHR '')'' then PStartCapture True # parse_items n ds
                    else PStartCapture False # parse_items n cs)
      else if c = CHR '')'' then PEndCapture # parse_items n cs
      else if c = CHR ''$'' \<and> cs = [] then [PEnd]
      else if c = CHR ''%'' \<and> take 1 cs = ''b'' then
        (case tl cs of
           x # y # r \<Rightarrow> PBalance x y # parse_items n r
         | _ \<Rightarrow> [PMalformed ''malformed pattern (missing arguments to %b)''])
      else if c = CHR ''%'' \<and> take 1 cs = ''f'' then
        (if take 1 (tl cs) = ''[''
         then (case classEnd (tl cs) of
                 Inr (CSet sig items, r) \<Rightarrow> PFrontier sig items # parse_items n r
               | Inr (_, r) \<Rightarrow> [PMalformed ''malformed pattern'']
               | Inl msg \<Rightarrow> [PMalformed msg])
         else [PMalformed ''missing [ after %f in pattern''])
      else if c = CHR ''%'' \<and> cs \<noteq> [] \<and> isdigit (hd cs) then PBackref (hd cs) # parse_items n (tl cs)
      else (case classEnd (c # cs) of
              Inl msg \<Rightarrow> [PMalformed msg]
            | Inr (cl, r) \<Rightarrow>
                (case split_quant r of (q, r') \<Rightarrow> PSingle cl q # parse_items n r')))"

definition parse_pattern :: "string \<Rightarrow> pitem list" where
  "parse_pattern p = parse_items (length p) p"

text \<open>
  The state of a match: the captures opened so far (\<open>ms->capture\<close> up to \<open>ms->level\<close>), each
  with the position where it starts and its length, \<open>CAP_UNFINISHED\<close> or \<open>CAP_POSITION\<close>;
  and \<open>ms->matchdepth\<close>, the number of nested calls of \<open>match\<close> still allowed. Positions
  are 0-based offsets into the subject. A match ends at a position (\<open>Matched\<close>, with the
  captures), fails (\<open>NoMatch\<close>, \<open>NULL\<close> in C) or raises an error.
\<close>

datatype cap_len = CAP_UNFINISHED | CAP_POSITION | CapLen nat

type_synonym capture = "nat \<times> cap_len"

datatype mres = Matched nat "capture list" | NoMatch | PatError string

type_synonym cont = "nat \<Rightarrow> capture list \<Rightarrow> nat \<Rightarrow> mres"

definition MAXCCALLS :: nat where
  "MAXCCALLS = 200"

definition LUA_MAXCAPTURES :: nat where
  "LUA_MAXCAPTURES = 32"

text \<open>
  \<open>match\<close> goes on with the rest of the pattern either by \<open>goto init\<close>, in the same
  activation, or by calling itself; the rest of the pattern is the continuation \<open>k\<close>, and
  \<open>call k\<close> is the nested call, which fails with \<open>pattern too complex\<close> when no depth is
  left.
\<close>

definition call :: "cont \<Rightarrow> cont" where
  "call k d caps s = (if d = 0 then PatError ''pattern too complex'' else k (d - 1) caps s)"

fun max_expand :: "cont \<Rightarrow> nat \<Rightarrow> capture list \<Rightarrow> nat \<Rightarrow> nat \<Rightarrow> mres" where
  "max_expand k d caps s 0 = call k d caps s"
| "max_expand k d caps s (Suc i) =
     (case call k d caps (s + Suc i) of
        NoMatch \<Rightarrow> max_expand k d caps s i
      | r \<Rightarrow> r)"

primrec min_expand :: "cont \<Rightarrow> (char \<Rightarrow> bool) \<Rightarrow> nat \<Rightarrow> capture list \<Rightarrow> string \<Rightarrow> nat \<Rightarrow> mres" where
  "min_expand k m d caps [] s = call k d caps s"
| "min_expand k m d caps (c # cs) s =
     (case call k d caps s of
        NoMatch \<Rightarrow> if m c then min_expand k m d caps cs (Suc s) else NoMatch
      | r \<Rightarrow> r)"

text \<open>\<open>matchbalance\<close>: the loop over the subject after the opening character, \<open>s\<close> being
  the position of the head of the list.\<close>

primrec balance_loop :: "char \<Rightarrow> char \<Rightarrow> string \<Rightarrow> nat \<Rightarrow> nat \<Rightarrow> nat option" where
  "balance_loop b e [] cont s = None"
| "balance_loop b e (c # cs) cont s =
     (if c = e then (if cont = 1 then Some (Suc s) else balance_loop b e cs (cont - 1) (Suc s))
      else if c = b then balance_loop b e cs (Suc cont) (Suc s)
      else balance_loop b e cs cont (Suc s))"

definition matchbalance :: "string \<Rightarrow> nat \<Rightarrow> char \<Rightarrow> char \<Rightarrow> nat option" where
  "matchbalance src s b e =
     (if s < length src \<and> src ! s = b then balance_loop b e (drop (Suc s) src) 1 (Suc s)
      else None)"

text \<open>\<open>capture_to_close\<close>: the last capture that is still unfinished.\<close>

definition capture_to_close :: "capture list \<Rightarrow> nat option" where
  "capture_to_close caps =
     (case filter (\<lambda>l. snd (caps ! l) = CAP_UNFINISHED) (rev [0..<length caps]) of
        [] \<Rightarrow> None
      | l # _ \<Rightarrow> Some l)"

text \<open>The character at a position of the subject; a Lua string is followed by a zero byte,
  which \<open>%f\<close> reads at the end of the subject.\<close>

definition char_at :: "string \<Rightarrow> nat \<Rightarrow> char" where
  "char_at src s = (if s < length src then src ! s else CHR 0x00)"

definition match_item :: "string \<Rightarrow> pitem \<Rightarrow> cont \<Rightarrow> cont" where
  "match_item src item k d caps s =
     (case item of
        PMalformed msg \<Rightarrow> PatError msg
      | PStartCapture pos \<Rightarrow>
          if length caps \<ge> LUA_MAXCAPTURES then PatError ''too many captures''
          else call k d (caps @ [(s, if pos then CAP_POSITION else CAP_UNFINISHED)]) s
      | PEndCapture \<Rightarrow>
          (case capture_to_close caps of
             None \<Rightarrow> PatError ''invalid pattern capture''
           | Some l \<Rightarrow> call k d (caps[l := (fst (caps ! l), CapLen (s - fst (caps ! l)))]) s)
      | PEnd \<Rightarrow> if s = length src then Matched s caps else NoMatch
      | PBalance b e \<Rightarrow>
          (case matchbalance src s b e of
             None \<Rightarrow> NoMatch
           | Some s' \<Rightarrow> k d caps s')
      | PFrontier sig items \<Rightarrow>
          (let previous = (if s = 0 then CHR 0x00 else char_at src (s - 1))
           in if \<not> matchbracketclass previous sig items
                 \<and> matchbracketclass (char_at src s) sig items
              then k d caps s else NoMatch)
      | PBackref l \<Rightarrow>
          if l = CHR ''0'' \<or> byte l - 49 \<ge> length caps then PatError ''invalid capture index''
          else (case caps ! (byte l - 49) of
                  (init, CAP_UNFINISHED) \<Rightarrow> PatError ''invalid capture index''
                | (init, CAP_POSITION) \<Rightarrow> NoMatch
                | (init, CapLen len) \<Rightarrow>
                    if length src - s \<ge> len
                       \<and> take len (drop init src) = take len (drop s src)
                    then k d caps (s + len) else NoMatch)
      | PSingle cl q \<Rightarrow>
          if s < length src \<and> singlematch cl (src ! s)
          then (case q of
                  QOpt \<Rightarrow> (case call k d caps (s + 1) of
                             NoMatch \<Rightarrow> k d caps s
                           | r \<Rightarrow> r)
                | QPlus \<Rightarrow>
                    max_expand k d caps (s + 1)
                      (length (takeWhile (singlematch cl) (drop (s + 1) src)))
                | QStar \<Rightarrow>
                    max_expand k d caps s (length (takeWhile (singlematch cl) (drop s src)))
                | QMinus \<Rightarrow> min_expand k (singlematch cl) d caps (drop s src) s
                | QOne \<Rightarrow> k d caps (s + 1))
          else (case q of
                  QStar \<Rightarrow> k d caps s
                | QOpt \<Rightarrow> k d caps s
                | QMinus \<Rightarrow> k d caps s
                | _ \<Rightarrow> NoMatch))"

primrec do_match :: "string \<Rightarrow> pitem list \<Rightarrow> cont" where
  "do_match src [] = (\<lambda>d caps s. Matched s caps)"
| "do_match src (p # ps) = match_item src p (do_match src ps)"

text \<open>
  \<open>str_find_aux\<close> with \<open>find\<close> set and no \<open>init\<close>: a pattern with none of the characters
  \<open>^$*+?.([%-\<close> is searched for as plain text (\<open>lmemfind\<close>); otherwise \<open>match\<close> is tried at
  every position from the first, or at the first only when the pattern starts with \<open>^\<close>.
  When the pattern matches, the captures are pushed, and one that is still unfinished
  raises an error. The result is the pair of 1-based indices \<open>find\<close> returns, \<open>nil\<close>, or
  the error raised.
\<close>

datatype find_result = Found nat nat | NotFound | PatternError string

definition nospecials :: "string \<Rightarrow> bool" where
  "nospecials p = (\<forall>c\<in>set p. c \<notin> set ''^$*+?.([%-'')"

fun lmemfind :: "string \<Rightarrow> string \<Rightarrow> nat \<Rightarrow> nat option" where
  "lmemfind [] p i = (if p = [] then Some i else None)"
| "lmemfind (c # cs) p i = (if prefix p (c # cs) then Some i else lmemfind cs p (Suc i))"

fun find_from :: "string \<Rightarrow> pitem list \<Rightarrow> nat list \<Rightarrow> find_result" where
  "find_from src ps [] = NotFound"
| "find_from src ps (s1 # rest) =
     (case call (do_match src ps) MAXCCALLS [] s1 of
        Matched e caps \<Rightarrow>
          if list_ex (\<lambda>c. snd c = CAP_UNFINISHED) caps then PatternError ''unfinished capture''
          else Found (s1 + 1) e
      | PatError msg \<Rightarrow> PatternError msg
      | NoMatch \<Rightarrow> find_from src ps rest)"

definition str_find :: "string \<Rightarrow> string \<Rightarrow> find_result" where
  "str_find s pattern =
     (if nospecials pattern
      then (case lmemfind s pattern 0 of
              None \<Rightarrow> NotFound
            | Some i \<Rightarrow> Found (i + 1) (i + length pattern))
      else if take 1 pattern = ''^''
      then find_from s (parse_pattern (tl pattern)) [0]
      else find_from s (parse_pattern pattern) [0..<Suc (length s)])"


text \<open>A continuation is bounded when every match it makes ends inside the subject, at or
  after the position where it starts.\<close>

definition bounded :: "string \<Rightarrow> cont \<Rightarrow> bool" where
  "bounded src k =
     (\<forall>d c s e c'. k d c s = Matched e c' \<longrightarrow> s \<le> length src \<longrightarrow> s \<le> e \<and> e \<le> length src)"

subsection \<open>Template parameters, tokens and errors\<close>

text \<open>
  The template is instantiated by the generator with \<open>tokensMap\<close> (\<open>{{{TOKENS}}}\<close>),
  \<open>lexRules\<close> (\<open>{{{LEX_RULES}}}\<close>: pairs of a pattern and the name of a handler),
  \<open>lexRulesByConditions\<close> (\<open>{{{LEX_RULES_BY_START_CONDITIONS}}}\<close>: for each start
  condition the 0-based indices of its rules) and the handler functions
  (\<open>{{{LEX_RULE_HANDLERS}}}\<close>). They are parameters of the model. A handler is Lua code of
  the grammar's author: called as \<open>self[lexRule[2]]()\<close> it receives no argument, reads the
  global \<open>yytext\<close>, may assign it, and returns nothing, a token type or a table of token
  types.
\<close>

datatype action_result = Nothing | TokenType string | TokenTypes "string list"

type_synonym handler = "string \<Rightarrow> action_result \<times> string"

record env =
  tokensMap :: "string \<rightharpoonup> nat"
  lexRules :: "(string \<times> string) list"
  lexRulesByConditions :: "string \<rightharpoonup> nat list"
  handlers :: "string \<rightharpoonup> handler"

text \<open>A token is a Lua table; a field that is \<open>nil\<close> is \<open>None\<close>. The fields \<open>type\<close> and
  \<open>value\<close> are \<open>ttype\<close> and \<open>tvalue\<close>.\<close>

record token =
  ttype :: "nat option"
  tvalue :: "string option"
  startOffset :: "nat option"
  endOffset :: "nat option"
  startLine :: "nat option"
  endLine :: "nat option"
  startColumn :: "int option"
  endColumn :: "int option"

definition EOF :: string where
  "EOF = ''$''"

definition EOF_TOKEN :: "env \<Rightarrow> token" where
  "EOF_TOKEN env =
     \<lparr> ttype = tokensMap env EOF, tvalue = None, startOffset = None, endOffset = None,
       startLine = None, endLine = None, startColumn = None, endColumn = None \<rparr>"

text \<open>
  \<open>UnexpectedToken\<close> carries the message \<open>throwUnexpectedToken\<close> passes to \<open>error\<close>;
  \<open>LuaError\<close> is an error the Lua runtime raises itself (indexing or calling \<open>nil\<close>, an
  error in a pattern).
\<close>

datatype error = UnexpectedToken string | LuaError string

subsection \<open>Numbers and lines in the error message\<close>

text \<open>Lua's \<open>..\<close> writes an integer in decimal.\<close>

fun string_of_nat :: "nat \<Rightarrow> string" where
  "string_of_nat n =
     (if n < 10 then [''0123456789'' ! n]
      else string_of_nat (n div 10) @ [''0123456789'' ! (n mod 10)])"

declare string_of_nat.simps [simp del]

definition tostring :: "int \<Rightarrow> string" where
  "tostring i = (if i < 0 then ''-'' @ string_of_nat (nat (- i)) else string_of_nat (nat i))"

text \<open>
  \<open>self._string:gmatch("([^\n]*)\n?")\<close> yields the lines of the input; whether it also
  yields an empty string after the last line depends on the Lua version, and makes no
  difference to \<open>lines[line] or ""\<close>.
\<close>

primrec lines_of :: "string \<Rightarrow> string list" where
  "lines_of [] = [] # []"
| "lines_of (c # cs) =
     (if c = CHR 0x0A then [] # lines_of cs
      else (case lines_of cs of [] \<Rightarrow> [c] # [] | l # ls \<Rightarrow> (c # l) # ls))"

definition lineSource :: "string \<Rightarrow> nat \<Rightarrow> string" where
  "lineSource s line =
     (if 1 \<le> line \<and> line \<le> length (lines_of s) then lines_of s ! (line - 1) else [])"

definition throwUnexpectedToken :: "string \<Rightarrow> nat \<Rightarrow> int \<Rightarrow> tokenizer \<Rightarrow> error" where
  "throwUnexpectedToken symbol line column t =
     (let pad = replicate (nat column) (CHR '' '');
          lineData = [CHR 0x0A, CHR 0x0A] @ lineSource (str t) line @ [CHR 0x0A] @ pad
                     @ [CHR ''^'', CHR 0x0A]
      in UnexpectedToken
           (lineData @ ''Unexpected token: '' @ [CHR 0x22] @ symbol @ [CHR 0x22] @ '' at ''
            @ string_of_nat line @ '':'' @ tostring column))"

subsection \<open>Locations and matching\<close>

text \<open>
  The loop \<open>for nl in matched:gmatch("\n")\<close> of \<open>_captureLocation\<close> runs once for every
  newline of the lexeme; \<open>self._cursor\<close> does not change in it.
\<close>

primrec newlines :: "string \<Rightarrow> tokenizer \<Rightarrow> tokenizer" where
  "newlines [] t = t"
| "newlines (c # cs) t =
     newlines cs
       (if c = CHR 0x0A
        then t\<lparr>currentLine := currentLine t + 1, currentLineBeginOffset := cursor t + 1\<rparr>
        else t)"

definition captureLocation :: "string \<Rightarrow> tokenizer \<Rightarrow> tokenizer" where
  "captureLocation matched t =
     (let t1 = t\<lparr>tokenStartOffset := cursor t\<rparr>;
          t2 = t1\<lparr>tokenStartLine := currentLine t1\<rparr>;
          t3 = t2\<lparr>tokenStartColumn :=
                    int (tokenStartOffset t2) - int (currentLineBeginOffset t2)\<rparr>;
          t4 = newlines matched t3;
          t5 = t4\<lparr>tokenEndOffset := cursor t4 + length matched\<rparr>;
          t6 = t5\<lparr>tokenEndLine := currentLine t5\<rparr>;
          t7 = t6\<lparr>currentColumn :=
                    int (tokenEndOffset t6) - int (currentLineBeginOffset t6)\<rparr>
      in t7\<lparr>tokenEndColumn := currentColumn t7\<rparr>)"

definition toToken :: "env \<Rightarrow> string option \<Rightarrow> string option \<Rightarrow> tokenizer \<Rightarrow> token" where
  "toToken env tokenType text t =
     \<lparr> ttype = (case tokenType of None \<Rightarrow> None | Some ty \<Rightarrow> tokensMap env ty),
       tvalue = Some (case text of None \<Rightarrow> [] | Some y \<Rightarrow> y),
       startOffset = Some (tokenStartOffset t),
       endOffset = Some (tokenEndOffset t),
       startLine = Some (tokenStartLine t),
       endLine = Some (tokenEndLine t),
       startColumn = Some (tokenStartColumn t),
       endColumn = Some (tokenEndColumn t) \<rparr>"

definition isEOF :: "tokenizer \<Rightarrow> bool" where
  "isEOF t = (cursor t = length (str t))"

definition hasMoreTokens :: "tokenizer \<Rightarrow> bool" where
  "hasMoreTokens t = (cursor t \<le> length (str t))"

text \<open>
  \<open>_match\<close>: \<open>stringRest:sub(s, e)\<close> is the lexeme; the location is captured and the
  cursor advanced only when the pattern was found.
\<close>

definition match_pattern ::
  "string \<Rightarrow> string \<Rightarrow> tokenizer \<Rightarrow> error + (string option \<times> tokenizer)" where
  "match_pattern stringRest pattern t =
     (case str_find stringRest pattern of
        PatternError msg \<Rightarrow> Inl (LuaError msg)
      | NotFound \<Rightarrow> Inr (None, t)
      | Found s e \<Rightarrow>
          (let matched = take (e + 1 - s) (drop (s - 1) stringRest);
               t1 = captureLocation matched t
           in Inr (Some matched, t1\<lparr>cursor := cursor t1 + length matched\<rparr>)))"

subsection \<open>getNextToken\<close>

text \<open>
  The \<open>for\<close> loop of \<open>getNextToken\<close> over the rules of the current start condition. Every
  path through \<open>if matched then ... end\<close> leaves the function, so the loop amounts to
  finding the first rule whose pattern is found; \<open>tryRules\<close> returns its index, the
  lexeme and the tokenizer as \<open>_match\<close> and the end-of-string adjustment of the cursor
  leave it. \<open>lexRules[lexRuleIndex + 1]\<close> is \<open>nil\<close> for an index outside the table, and
  indexing it raises an error.
\<close>

fun tryRules ::
  "env \<Rightarrow> nat list \<Rightarrow> string \<Rightarrow> tokenizer \<Rightarrow> error + (nat \<times> string \<times> tokenizer) option" where
  "tryRules env [] stringRest t = Inr None"
| "tryRules env (lexRuleIndex # rest) stringRest t =
     (if lexRuleIndex < length (lexRules env)
      then (case match_pattern stringRest (fst (lexRules env ! lexRuleIndex)) t of
              Inl e \<Rightarrow> Inl e
            | Inr (None, _) \<Rightarrow> tryRules env rest stringRest t
            | Inr (Some matched, t1) \<Rightarrow>
                Inr (Some (lexRuleIndex, matched,
                           if stringRest = [] \<and> matched = []
                           then t1\<lparr>cursor := cursor t1 + 1\<rparr> else t1)))
      else Inl (LuaError ''attempt to index a nil value''))"

text \<open>
  \<open>scanRules\<close> is the part of \<open>getNextToken\<close> from \<open>local stringRest\<close> to the end of the
  loop: the rules tried are \<open>lexRulesByConditions[self:getCurrentState()]\<close>, and \<open>#\<close> of
  \<open>nil\<close> raises an error.
\<close>

definition scanRules :: "env \<Rightarrow> tokenizer \<Rightarrow> error + (nat \<times> string \<times> tokenizer) option" where
  "scanRules env t =
     (let stringRest = drop (cursor t) (str t)
      in case (case getCurrentState t of None \<Rightarrow> None
                                       | Some st \<Rightarrow> lexRulesByConditions env st) of
           None \<Rightarrow> Inl (LuaError ''attempt to get length of a nil value'')
         | Some lexRulesForState \<Rightarrow> tryRules env lexRulesForState stringRest t)"

text \<open>
  One activation of \<open>getNextToken\<close>: it either leaves with a token or an error (\<open>Return\<close>),
  or, when the handler returned nothing, calls \<open>self:getNextToken()\<close> again on the
  tokenizer as it is then (\<open>Again\<close>).
\<close>

datatype step = Return "error + token \<times> tokenizer" | Again tokenizer

definition runHandler :: "env \<Rightarrow> nat \<Rightarrow> string \<Rightarrow> tokenizer \<Rightarrow> step" where
  "runHandler env lexRuleIndex matched t =
     (case handlers env (snd (lexRules env ! lexRuleIndex)) of
        None \<Rightarrow> Return (Inl (LuaError ''attempt to call a nil value''))
      | Some h \<Rightarrow>
          (case h matched of
             (tokenType, text) \<Rightarrow>
               (let t1 = t\<lparr>yytext := text, yyleng := length matched\<rparr>
                in case tokenType of
                     Nothing \<Rightarrow> Again t1
                   | TokenType ty \<Rightarrow> Return (Inr (toToken env (Some ty) (Some text) t1, t1))
                   | TokenTypes tys \<Rightarrow>
                       (let t2 = t1\<lparr>tokensQueue := tl tys @ tokensQueue t1\<rparr>
                        in Return (Inr (toToken env (case tys of [] \<Rightarrow> None
                                                               | ty # _ \<Rightarrow> Some ty)
                                          (Some text) t2, t2))))))"

definition getNextToken_step :: "env \<Rightarrow> tokenizer \<Rightarrow> step" where
  "getNextToken_step env t =
     (if tokensQueue t \<noteq> []
      then (let t1 = t\<lparr>tokensQueue := tl (tokensQueue t)\<rparr>
            in Return (Inr (toToken env (Some (hd (tokensQueue t))) None t1, t1)))
      else if \<not> hasMoreTokens t then Return (Inr (EOF_TOKEN env, t))
      else (case scanRules env t of
              Inl e \<Rightarrow> Return (Inl e)
            | Inr (Some (lexRuleIndex, matched, t1)) \<Rightarrow> runHandler env lexRuleIndex matched t1
            | Inr None \<Rightarrow>
                if isEOF t then Return (Inr (EOF_TOKEN env, t\<lparr>cursor := cursor t + 1\<rparr>))
                else Return (Inl (throwUnexpectedToken (take 1 (drop (cursor t) (str t)))
                                    (currentLine t) (currentColumn t) t))))"

text \<open>
  \<open>getNextToken\<close> itself. A rule that matches the empty string and whose handler
  returns nothing makes the Lua function call itself for ever; \<open>None\<close> is that case.
\<close>

partial_function (option) getNextToken ::
  "env \<Rightarrow> tokenizer \<Rightarrow> (error + token \<times> tokenizer) option" where
  "getNextToken env t =
     (case getNextToken_step env t of
        Return r \<Rightarrow> Some r
      | Again t1 \<Rightarrow> getNextToken env t1)"

declare getNextToken.simps [code]

subsection \<open>Calling getNextToken repeatedly\<close>

text \<open>\<open>callNextToken env n\<close> is \<open>n\<close> calls of \<open>getNextToken\<close> one after the other.\<close>

fun callNextToken :: "env \<Rightarrow> nat \<Rightarrow> tokenizer \<Rightarrow> (error + token list \<times> tokenizer) option" where
  "callNextToken env 0 t = Some (Inr ([], t))"
| "callNextToken env (Suc n) t =
     (case getNextToken env t of
        None \<Rightarrow> None
      | Some (Inl e) \<Rightarrow> Some (Inl e)
      | Some (Inr (tok, t1)) \<Rightarrow>
          (case callNextToken env n t1 of
             None \<Rightarrow> None
           | Some (Inl e) \<Rightarrow> Some (Inl e)
           | Some (Inr (toks, t2)) \<Rightarrow> Some (Inr (tok # toks, t2))))"

text \<open>
  The template has no method that tokenizes a whole string: its callers call
  \<open>getNextToken\<close> for as long as \<open>hasMoreTokens\<close> holds. \<open>tokenizes env t toks r\<close> says
  that these calls, started on the tokenizer \<open>t\<close>, return the tokens \<open>toks\<close> one after the
  other and then come to an end: with \<open>hasMoreTokens\<close> false (\<open>r\<close> is \<open>None\<close>, the input is
  tokenized to completion) or with an error raised by the last call (\<open>r\<close> is that error).
\<close>

inductive tokenizes :: "env \<Rightarrow> tokenizer \<Rightarrow> token list \<Rightarrow> error option \<Rightarrow> bool" where
  finished: "\<not> hasMoreTokens t \<Longrightarrow> tokenizes env t [] None"
| failed: "hasMoreTokens t \<Longrightarrow> getNextToken env t = Some (Inl e) \<Longrightarrow> tokenizes env t [] (Some e)"
| next_token:
    "hasMoreTokens t \<Longrightarrow> getNextToken env t = Some (Inr (tok, t1)) \<Longrightarrow> tokenizes env t1 toks r
     \<Longrightarrow> tokenizes env t (tok # toks) r"

subsection \<open>Notions the properties are stated with\<close>


text \<open>
  The begin offset of the line that offset \<open>off\<close> of \<open>s\<close> lies on: the offset just after
  the last newline before \<open>off\<close>, or 0. The number of newlines of a lexeme.
\<close>

definition lineBegin :: "string \<Rightarrow> nat \<Rightarrow> nat" where
  "lineBegin s off = off - length (takeWhile (\<lambda>c. c \<noteq> CHR 0x0A) (rev (take off s)))"

definition count_newlines :: "string \<Rightarrow> nat" where
  "count_newlines s = length (filter (\<lambda>c. c = CHR 0x0A) s)"

text \<open>
  No rule of the table ever matches an empty lexeme; no rule of the table matches the
  empty rest of the input, which is what is left at the end of the input.
\<close>

definition never_empty :: "env \<Rightarrow> bool" where
  "never_empty env =
     (\<forall>r\<in>set (lexRules env). \<forall>s a b. str_find s (fst r) = Found a b \<longrightarrow> a \<le> b)"

definition no_match_at_end :: "env \<Rightarrow> bool" where
  "no_match_at_end env = (\<forall>r\<in>set (lexRules env). \<forall>a b. str_find [] (fst r) \<noteq> Found a b)"

text \<open>
  What a call of \<open>getNextToken\<close> on \<open>t\<close> leaves behind when it returns a token: the input
  is the same; if \<open>hasMoreTokens\<close> still holds the token carries a value, as every token
  made by \<open>_toToken\<close> does, and otherwise it is the EOF token. \<open>advances\<close> adds that the
  call has either moved the cursor forward or taken a token type from the queue.
\<close>

definition emits :: "env \<Rightarrow> tokenizer \<Rightarrow> error + token \<times> tokenizer \<Rightarrow> bool" where
  "emits env t r =
     (case r of
        Inl e \<Rightarrow> True
      | Inr (tok, t1) \<Rightarrow>
          str t1 = str t
          \<and> (if hasMoreTokens t1 then tvalue tok \<noteq> None else tok = EOF_TOKEN env))"

definition advances :: "tokenizer \<Rightarrow> error + token \<times> tokenizer \<Rightarrow> bool" where
  "advances t r =
     (case r of
        Inl e \<Rightarrow> True
      | Inr (tok, t1) \<Rightarrow>
          hasMoreTokens t1 \<longrightarrow>
            cursor t < cursor t1
            \<or> cursor t1 = cursor t \<and> length (tokensQueue t1) < length (tokensQueue t))"

text \<open>
  The tokenizer of scenario S6: whitespace is skipped, \<open>[a-z]+\<close> is an \<open>ID\<close>; the patterns
  carry the \<open>^\<close> the generator puts in front.
\<close>

definition S6_env :: env where
  "S6_env =
     \<lparr> tokensMap = [''ID'' \<mapsto> 1, ''$'' \<mapsto> 2],
       lexRules = [(''^%s+'', ''_lexRule1''), (''^[a-z]+'', ''_lexRule2'')],
       lexRulesByConditions = [''INITIAL'' \<mapsto> [0, 1]],
       handlers = [''_lexRule1'' \<mapsto> (\<lambda>y. (Nothing, y)),
                   ''_lexRule2'' \<mapsto> (\<lambda>y. (TokenType ''ID'', y))] \<rparr>"


text \<open>
  A tokenizer whose second rule returns a table of three token types, to run the queue of
  \<open>getNextToken\<close> on.
\<close>

definition queue_env :: env where
  "queue_env =
     \<lparr> tokensMap = [''ID'' \<mapsto> 1, ''$'' \<mapsto> 2, ''A'' \<mapsto> 3, ''B'' \<mapsto> 4],
       lexRules = [(''^%s+'', ''_lexRule1''), (''^[a-z]+'', ''_lexRule2'')],
       lexRulesByConditions = [''INITIAL'' \<mapsto> [0, 1]],
       handlers = [''_lexRule1'' \<mapsto> (\<lambda>y. (Nothing, y)),
                   ''_lexRule2'' \<mapsto> (\<lambda>y. (TokenTypes [''ID'', ''A'', ''B''], y))] \<rparr>"


text \<open>
  A tokenizer with one rule, \<open>%s*\<close> with \<open>^\<close> in front, whose handler returns the token
  type \<open>WS\<close>: the rule matches the empty string.
\<close>

definition ws_env :: env where
  "ws_env =
     \<lparr> tokensMap = [''WS'' \<mapsto> 1, ''$'' \<mapsto> 2],
       lexRules = [(''^%s*'', ''_lexRule1'')],
       lexRulesByConditions = [''INITIAL'' \<mapsto> [0]],
       handlers = [''_lexRule1'' \<mapsto> (\<lambda>y. (TokenType ''WS'', y))] \<rparr>"

section \<open>The command line: lexical grammar data (\<open>getLexGrammarData\<close>, \<open>getGrammar\<close>)\<close>

text \<open>
  A rule of a lexical grammar in data form is an array of an optional list of start
  conditions, a matcher and a handler. Lexical grammar data is an object whose \<open>rules\<close>
  and \<open>options\<close> (here \<open>lex_options\<close>) may be missing (\<open>undefined\<close>, here \<open>None\<close>); of
  the options only the flags matter here, by name. Of the command-line options the two functions read
  \<open>lex\<close> (here \<open>lex_option\<close>), \<open>ignore-whitespaces\<close> and \<open>case-insensitive\<close>.
\<close>

datatype lex_rule = LexRuleData "string list option" string string

record lex_data =
  rules :: "lex_rule list option"
  lex_options :: "(string \<rightharpoonup> bool) option"

record cli_options =
  lex_option :: "string option"
  ignore_whitespaces :: bool
  case_insensitive :: bool

text \<open>
  \<open>Grammar.dataFromGrammarFile\<close> reads and parses a file; what it returns for the file
  of the \<open>lex\<close> option is the parameter \<open>dataFromGrammarFile\<close>. An empty string as
  \<open>options.lex\<close> is falsy in JavaScript. The rule \<open>['\\s+', '']\<close> has the three characters
  \<open>\s+\<close> as matcher and the empty string as handler.
\<close>

definition getLexGrammarData :: "(string \<Rightarrow> lex_data) \<Rightarrow> cli_options \<Rightarrow> lex_data option" where
  "getLexGrammarData dataFromGrammarFile options =
     (let data0 = (case lex_option options of
                     None \<Rightarrow> None
                   | Some file \<Rightarrow> if file = [] then None else Some (dataFromGrammarFile file));
          data1 = (if ignore_whitespaces options \<and> data0 = None
                   then Some \<lparr> rules = Some [LexRuleData None [CHR 0x5C, CHR ''s'', CHR ''+''] []],
                               lex_options = None \<rparr>
                   else data0)
      in if case_insensitive options
         then (let data2 = (case data1 of
                              None \<Rightarrow> \<lparr> rules = None, lex_options = None \<rparr>
                            | Some d \<Rightarrow> d);
                   opts = (case lex_options data2 of None \<Rightarrow> Map.empty | Some m \<Rightarrow> m)
               in Some (data2\<lparr>lex_options := Some (opts(''case-insensitive'' \<mapsto> True))\<rparr>))
         else data1)"


text \<open>What JavaScript code throws: a \<open>TypeError\<close> of the engine, or \<open>new Error(message)\<close>.\<close>

datatype js_exception = JsTypeError | JsError string

text \<open>
  The part of \<open>getGrammar\<close> that settles \<open>grammarData.lex\<close>, given the \<open>lex\<close> of the data
  read from the grammar file. \<open>grammarData.lex.rules.push(...lexGrammarData.rules)\<close> raises
  a \<open>TypeError\<close> when either \<open>rules\<close> is \<open>undefined\<close>.
\<close>

definition getGrammar_lex ::
  "(string \<Rightarrow> lex_data) \<Rightarrow> cli_options \<Rightarrow> lex_data option \<Rightarrow> js_exception + lex_data option" where
  "getGrammar_lex dataFromGrammarFile options grammarData_lex =
     (let lexGrammarData = getLexGrammarData dataFromGrammarFile options
      in case grammarData_lex of
           None \<Rightarrow> Inr lexGrammarData
         | Some gl \<Rightarrow>
             (case lexGrammarData of
                None \<Rightarrow> Inr (Some gl)
              | Some ld \<Rightarrow>
                  (case rules gl of
                     None \<Rightarrow> Inl JsTypeError
                   | Some grammar_rules \<Rightarrow>
                       (case rules ld of
                          None \<Rightarrow> Inl JsTypeError
                        | Some lex_rules \<Rightarrow>
                            Inr (Some (gl\<lparr>rules := Some (grammar_rules @ lex_rules)\<rparr>))))))"

text \<open>An external lexical grammar of two rules, and a grammar whose own \<open>lex\<close> has one.\<close>

definition example_lex_file :: "string \<Rightarrow> lex_data" where
  "example_lex_file file =
     \<lparr> rules = Some [LexRuleData None ''%d+'' ''return NUMBER'',
                     LexRuleData None ''%+'' ''return PLUS''],
       lex_options = None \<rparr>"

definition example_grammar_lex :: lex_data where
  "example_grammar_lex =
     \<lparr> rules = Some [LexRuleData None ''%s+'' ''-- skip whitespace''], lex_options = None \<rparr>"

section \<open>The Lua parser generator (\<open>lua-parser-generator-trait.js\<close>)\<close>






















section \<open>The command line: validating a grammar (\<open>validateLRGrammar\<close>)\<close>










text \<open>The lines printed for one production with shift-reduce conflicts, and for one
  reduce-reduce conflict; \<open>i\<close> counts them from 1.\<close>

definition pad :: "nat \<Rightarrow> string" where
  "pad i = (if i \<ge> 10 then [] else '' '')"










section \<open>Properties of the start-condition stack\<close>

lemma call_state_nonempty: "states t \<noteq> [] \<Longrightarrow> states (call_state t c) \<noteq> []"
proof (cases c)
  case PopState
  assume ne: "states t \<noteq> []"
  show ?thesis
  proof (cases "length (states t) > 1")
    case True
    then have "butlast (states t) \<noteq> []"
      by (cases "states t" rule: rev_cases) auto
    with True PopState show ?thesis by (simp add: popState_def)
  next
    case False
    with ne PopState show ?thesis by (simp add: popState_def)
  qed
qed (simp_all add: pushState_def begin_state_def)

lemma call_states_nonempty: "states t \<noteq> [] \<Longrightarrow> states (call_states cs t) \<noteq> []"
  unfolding call_states_def
  by (induction cs arbitrary: t) (simp_all add: call_state_nonempty)

text \<open>
  C10. The stack of start conditions is never empty. \<open>initString\<close> sets it to the single
  state \<open>INITIAL\<close>; \<open>pushState\<close> and \<open>begin\<close> make it one longer; \<open>popState\<close> makes it one
  shorter when more than one state is on it, and otherwise leaves it as it is and returns
  the bottom state. So after every sequence of \<open>pushState\<close>, \<open>begin\<close> and \<open>popState\<close> calls on
  a fresh tokenizer the stack is non-empty and \<open>getCurrentState\<close> returns its top.
\<close>

theorem C10_states_never_empty:
  "states (initString s) = [''INITIAL'']
   \<and> length (states (pushState x t)) = Suc (length (states t))
   \<and> length (states (begin_state x t)) = Suc (length (states t))
   \<and> (if length (states t) > 1
      then popState t = (Some (last (states t)), t\<lparr>states := butlast (states t)\<rparr>)
           \<and> length (states (snd (popState t))) = length (states t) - 1
      else snd (popState t) = t
           \<and> (states t \<noteq> [] \<longrightarrow> fst (popState t) = Some (hd (states t))))
   \<and> states (call_states cs (initString s)) \<noteq> []
   \<and> getCurrentState (call_states cs (initString s))
       = Some (last (states (call_states cs (initString s))))"
proof -
  have init: "states (initString s) = [''INITIAL'']"
    by (simp add: initString_def)
  have ne: "states (call_states cs (initString s)) \<noteq> []"
    by (rule call_states_nonempty) (simp add: init)
  have pop: "if length (states t) > 1
      then popState t = (Some (last (states t)), t\<lparr>states := butlast (states t)\<rparr>)
           \<and> length (states (snd (popState t))) = length (states t) - 1
      else snd (popState t) = t
           \<and> (states t \<noteq> [] \<longrightarrow> fst (popState t) = Some (hd (states t)))"
    by (cases "states t") (simp_all add: popState_def)
  show ?thesis
    using init ne pop by (simp add: pushState_def begin_state_def getCurrentState_def)
qed

theorem C10_states_never_empty_witness:
  "popState (initString ''x'') = (Some ''INITIAL'', initString ''x'')
   \<and> states (call_states [PopState, Begin ''comment'', PopState, PopState] (initString ''x''))
       = [''INITIAL'']"
  using C10_states_never_empty [of "''x''" "''a''" "initString ''x''" "[]"]
  by (simp add: call_states_def popState_def pushState_def begin_state_def initString_def)

section \<open>What \<open>string.find\<close> returns lies inside the subject\<close>

lemma boundedD:
  "bounded src k \<Longrightarrow> k d c s = Matched e c' \<Longrightarrow> s \<le> length src \<Longrightarrow> s \<le> e \<and> e \<le> length src"
  unfolding bounded_def by blast

lemma call_bound: "bounded src k \<Longrightarrow> bounded src (call k)"
  unfolding bounded_def call_def by (auto split: if_splits)

lemma max_expand_bound:
  assumes k: "bounded src k"
  shows "max_expand k d c s i = Matched e c' \<Longrightarrow> s + i \<le> length src
         \<Longrightarrow> s \<le> e \<and> e \<le> length src"
proof (induction i)
  case 0
  then show ?case using boundedD[OF call_bound[OF k], of d c s e c'] by simp
next
  case (Suc i)
  show ?case
  proof (cases "call k d c (s + Suc i)")
    case (Matched e0 c0)
    with Suc.prems have "call k d c (s + Suc i) = Matched e c'" by simp
    from boundedD[OF call_bound[OF k] this] Suc.prems show ?thesis by simp
  next
    case NoMatch
    with Suc show ?thesis by simp
  next
    case (PatError msg)
    with Suc.prems show ?thesis by simp
  qed
qed

lemma min_expand_bound:
  assumes k: "bounded src k"
  shows "min_expand k m d c rest s = Matched e c' \<Longrightarrow> s + length rest = length src
         \<Longrightarrow> s \<le> e \<and> e \<le> length src"
proof (induction rest arbitrary: s)
  case Nil
  then show ?case using boundedD[OF call_bound[OF k], of d c s e c'] by simp
next
  case (Cons x rest)
  show ?case
  proof (cases "call k d c s")
    case (Matched e0 c0)
    with Cons.prems have "call k d c s = Matched e c'" by simp
    from boundedD[OF call_bound[OF k] this] Cons.prems show ?thesis by simp
  next
    case NoMatch
    with Cons.prems have "min_expand k m d c rest (Suc s) = Matched e c'"
      by (simp split: if_splits)
    from Cons.IH[OF this] Cons.prems(2) show ?thesis by simp
  next
    case (PatError msg)
    with Cons.prems show ?thesis by simp
  qed
qed

lemma balance_loop_bound:
  "balance_loop b e cs cont s = Some s' \<Longrightarrow> s < s' \<and> s' \<le> s + length cs"
proof (induction cs arbitrary: cont s)
  case Nil
  then show ?case by simp
next
  case (Cons c cs)
  show ?case
  proof (cases "c = e")
    case True
    show ?thesis
    proof (cases "cont = 1")
      case one: True
      with True Cons.prems show ?thesis by simp
    next
      case False
      with True Cons.prems have "balance_loop b e cs (cont - 1) (Suc s) = Some s'" by simp
      from Cons.IH[OF this] show ?thesis by simp
    qed
  next
    case False
    show ?thesis
    proof (cases "c = b")
      case True
      with False Cons.prems have "balance_loop b e cs (Suc cont) (Suc s) = Some s'" by simp
      from Cons.IH[OF this] show ?thesis by simp
    next
      case nb: False
      with False Cons.prems have "balance_loop b e cs cont (Suc s) = Some s'" by simp
      from Cons.IH[OF this] show ?thesis by simp
    qed
  qed
qed

lemma matchbalance_bound:
  "matchbalance src s b e = Some s' \<Longrightarrow> s < s' \<and> s' \<le> length src"
  by (auto simp: matchbalance_def split: if_splits dest!: balance_loop_bound)

lemma match_item_bound:
  assumes k: "bounded src k"
  shows "bounded src (match_item src item k)"
  unfolding bounded_def
proof (intro allI impI)
  fix d c s e c'
  assume m: "match_item src item k d c s = Matched e c'" and s: "s \<le> length src"
  note kc = boundedD[OF call_bound[OF k]]
  note kk = boundedD[OF k]
  show "s \<le> e \<and> e \<le> length src"
  proof (cases item)
    case (PStartCapture pos)
    with m have "call k d (c @ [(s, if pos then CAP_POSITION else CAP_UNFINISHED)]) s = Matched e c'"
      by (simp add: match_item_def split: if_splits)
    from kc[OF this s] show ?thesis .
  next
    case PEndCapture
    with m obtain l where
      "call k d (c[l := (fst (c ! l), CapLen (s - fst (c ! l)))]) s = Matched e c'"
      by (auto simp: match_item_def split: option.splits)
    from kc[OF this s] show ?thesis .
  next
    case PEnd
    with m s show ?thesis by (simp add: match_item_def split: if_splits)
  next
    case (PBalance b e')
    with m obtain s' where b: "matchbalance src s b e' = Some s'" and "k d c s' = Matched e c'"
      by (auto simp: match_item_def split: option.splits)
    with matchbalance_bound[OF b] kk[of d c s' e c'] show ?thesis by simp
  next
    case (PFrontier sig items)
    with m have "k d c s = Matched e c'"
      by (simp add: match_item_def Let_def split: if_splits)
    from kk[OF this s] show ?thesis .
  next
    case (PBackref l)
    with m obtain len where "length src - s \<ge> len" "k d c (s + len) = Matched e c'"
      by (auto simp: match_item_def split: if_splits prod.splits cap_len.splits)
    moreover from this s have "s + len \<le> length src" by simp
    ultimately show ?thesis using kk[of d c "s + len" e c'] by simp
  next
    case (PMalformed msg)
    with m show ?thesis by (simp add: match_item_def)
  next
    case (PSingle cl q)
    show ?thesis
    proof (cases "s < length src \<and> singlematch cl (src ! s)")
      case False
      with PSingle m have "k d c s = Matched e c'"
        by (cases q) (auto simp: match_item_def split: if_splits)
      from kk[OF this s] show ?thesis .
    next
      case True
      then have lt: "s < length src" by simp
      show ?thesis
      proof (cases q)
        case QOne
        with PSingle True m have "k d c (s + 1) = Matched e c'" by (simp add: match_item_def)
        with kk[of d c "s + 1" e c'] lt show ?thesis by simp
      next
        case QOpt
        show ?thesis
        proof (cases "call k d c (s + 1)")
          case (Matched e0 c0)
          with QOpt PSingle True m have "call k d c (s + 1) = Matched e c'"
            by (simp add: match_item_def)
          with kc[of d c "s + 1" e c'] lt show ?thesis by simp
        next
          case NoMatch
          with QOpt PSingle True m have "k d c s = Matched e c'" by (simp add: match_item_def)
          from kk[OF this s] show ?thesis .
        next
          case (PatError msg)
          with QOpt PSingle True m show ?thesis by (simp add: match_item_def)
        qed
      next
        case QPlus
        with PSingle True m
        have e: "max_expand k d c (s + 1)
                   (length (takeWhile (singlematch cl) (drop (s + 1) src))) = Matched e c'"
          by (simp add: match_item_def)
        have "length (takeWhile (singlematch cl) (drop (s + 1) src)) \<le> length src - (s + 1)"
          using length_takeWhile_le[of "singlematch cl" "drop (s + 1) src"] by simp
        with lt have "s + 1 + length (takeWhile (singlematch cl) (drop (s + 1) src)) \<le> length src"
          by simp
        from max_expand_bound[OF k e this] show ?thesis by simp
      next
        case QStar
        with PSingle True m
        have e: "max_expand k d c s (length (takeWhile (singlematch cl) (drop s src))) = Matched e c'"
          by (simp add: match_item_def)
        have "length (takeWhile (singlematch cl) (drop s src)) \<le> length src - s"
          using length_takeWhile_le[of "singlematch cl" "drop s src"] by simp
        with lt have "s + length (takeWhile (singlematch cl) (drop s src)) \<le> length src" by simp
        from max_expand_bound[OF k e this] show ?thesis .
      next
        case QMinus
        with PSingle True m
        have e: "min_expand k (singlematch cl) d c (drop s src) s = Matched e c'"
          by (simp add: match_item_def)
        from lt have "s + length (drop s src) = length src" by simp
        from min_expand_bound[OF k e this] show ?thesis .
      qed
    qed
  qed
qed

lemma do_match_bound: "bounded src (do_match src ps)"
proof (induction ps)
  case Nil
  show ?case by (simp add: bounded_def)
next
  case (Cons p ps)
  from match_item_bound[OF Cons] show ?case by simp
qed

lemma find_from_bound:
  "find_from src ps poss = Found a b \<Longrightarrow> \<forall>p\<in>set poss. p \<le> length src
   \<Longrightarrow> a - 1 \<in> set poss \<and> 1 \<le> a \<and> a \<le> b + 1 \<and> b \<le> length src"
proof (induction poss)
  case Nil
  then show ?case by simp
next
  case (Cons s1 rest)
  show ?case
  proof (cases "call (do_match src ps) MAXCCALLS [] s1")
    case (Matched e caps)
    with Cons.prems(1) have ab: "a = s1 + 1" "b = e"
      by (simp_all split: if_splits)
    from Cons.prems(2) have "s1 \<le> length src" by simp
    from boundedD[OF call_bound[OF do_match_bound] Matched this]
    have "s1 \<le> e \<and> e \<le> length src" .
    with ab show ?thesis by simp
  next
    case NoMatch
    with Cons show ?thesis by simp
  next
    case (PatError msg)
    with Cons.prems show ?thesis by simp
  qed
qed

lemma lmemfind_bound:
  "lmemfind s p i = Some j \<Longrightarrow> i \<le> j \<and> j + length p \<le> i + length s"
proof (induction s arbitrary: i)
  case Nil
  then show ?case by (simp split: if_splits)
next
  case (Cons c cs)
  show ?case
  proof (cases "prefix p (c # cs)")
    case True
    with Cons.prems have "j = i" by simp
    with prefix_length_le[OF True] show ?thesis by simp
  next
    case False
    with Cons.prems have "lmemfind cs p (Suc i) = Some j" by simp
    from Cons.IH[OF this] show ?thesis by simp
  qed
qed

lemma str_find_bound:
  assumes "str_find s pattern = Found a b"
  shows "1 \<le> a \<and> a \<le> b + 1 \<and> b \<le> length s"
proof (cases "nospecials pattern")
  case True
  with assms obtain i where i: "lmemfind s pattern 0 = Some i" "a = i + 1" "b = i + length pattern"
    by (auto simp: str_find_def split: option.splits)
  from lmemfind_bound[OF i(1)] i(2,3) show ?thesis by simp
next
  case False
  with assms have "find_from s (parse_pattern (tl pattern)) [0] = Found a b
      \<or> find_from s (parse_pattern pattern) [0..<Suc (length s)] = Found a b"
    by (auto simp: str_find_def split: if_splits)
  then show ?thesis
  proof
    assume "find_from s (parse_pattern (tl pattern)) [0] = Found a b"
    from find_from_bound[OF this] show ?thesis by simp
  next
    assume "find_from s (parse_pattern pattern) [0..<Suc (length s)] = Found a b"
    from find_from_bound[OF this] show ?thesis by simp
  qed
qed


section \<open>Matching a rule: the tokenizer after \<open>_match\<close>\<close>

lemma newlines_eq:
  "newlines m t =
     t\<lparr>currentLine := currentLine t + count_newlines m,
       currentLineBeginOffset :=
         (if CHR 0x0A \<in> set m then cursor t + 1 else currentLineBeginOffset t)\<rparr>"
  by (induction m arbitrary: t) (simp_all add: count_newlines_def)

lemma captureLocation_eq:
  "captureLocation m t =
     t\<lparr>tokenStartOffset := cursor t,
       tokenStartLine := currentLine t,
       tokenStartColumn := int (cursor t) - int (currentLineBeginOffset t),
       currentLine := currentLine t + count_newlines m,
       currentLineBeginOffset :=
         (if CHR 0x0A \<in> set m then cursor t + 1 else currentLineBeginOffset t),
       tokenEndOffset := cursor t + length m,
       tokenEndLine := currentLine t + count_newlines m,
       currentColumn := int (cursor t + length m)
          - int (if CHR 0x0A \<in> set m then cursor t + 1 else currentLineBeginOffset t),
       tokenEndColumn := int (cursor t + length m)
          - int (if CHR 0x0A \<in> set m then cursor t + 1 else currentLineBeginOffset t)\<rparr>"
  by (simp add: captureLocation_def newlines_eq Let_def)

lemma match_pattern_Some:
  assumes "match_pattern rest p t = Inr (Some m, t')"
  shows "\<exists>a b. str_find rest p = Found a b \<and> m = take (b + 1 - a) (drop (a - 1) rest)
           \<and> t' = (captureLocation m t)\<lparr>cursor := cursor t + length m\<rparr>"
  using assms
  by (auto simp: match_pattern_def Let_def captureLocation_eq split: find_result.splits)

lemma match_pattern_None:
  "match_pattern rest p t = Inr (None, t') \<longleftrightarrow> str_find rest p = NotFound \<and> t' = t"
  by (auto simp: match_pattern_def Let_def split: find_result.splits)

lemma match_pattern_Inl:
  "match_pattern rest p t = Inl e \<Longrightarrow> \<exists>msg. str_find rest p = PatternError msg"
  by (auto simp: match_pattern_def Let_def split: find_result.splits)

lemma tryRules_None_iff:
  "tryRules env idxs rest t = Inr None \<longleftrightarrow>
     (\<forall>i\<in>set idxs. i < length (lexRules env) \<and> str_find rest (fst (lexRules env ! i)) = NotFound)"
proof (induction idxs)
  case Nil
  show ?case by simp
next
  case (Cons i idxs)
  show ?case
  proof (cases "i < length (lexRules env)")
    case False
    then show ?thesis by simp
  next
    case True
    show ?thesis
    proof (cases "match_pattern rest (fst (lexRules env ! i)) t")
      case (Inl e)
      with True match_pattern_Inl[OF Inl] show ?thesis by auto
    next
      case (Inr r)
      obtain mo t1 where r: "r = (mo, t1)" by (cases r)
      show ?thesis
      proof (cases mo)
        case None
        with Inr r have "str_find rest (fst (lexRules env ! i)) = NotFound"
          by (simp add: match_pattern_None)
        with True Inr r None Cons.IH show ?thesis by simp
      next
        case (Some m)
        with Inr r match_pattern_Some[of rest "fst (lexRules env ! i)" t m t1]
        have "str_find rest (fst (lexRules env ! i)) \<noteq> NotFound" by auto
        with True Inr r Some show ?thesis by simp
      qed
    qed
  qed
qed

lemma tryRules_Some:
  assumes "tryRules env idxs rest t = Inr (Some (i, m, t1))"
  shows "\<exists>k a b. k < length idxs \<and> idxs ! k = i \<and> i < length (lexRules env)
           \<and> (\<forall>j<k. idxs ! j < length (lexRules env)
                      \<and> str_find rest (fst (lexRules env ! (idxs ! j))) = NotFound)
           \<and> str_find rest (fst (lexRules env ! i)) = Found a b
           \<and> m = take (b + 1 - a) (drop (a - 1) rest)
           \<and> t1 = (captureLocation m t)\<lparr>cursor := cursor t + length m
                        + (if rest = [] \<and> m = [] then 1 else 0)\<rparr>"
  using assms
proof (induction idxs)
  case Nil
  then show ?case by simp
next
  case (Cons i0 idxs)
  from Cons.prems have lt: "i0 < length (lexRules env)" by (simp split: if_splits)
  show ?case
  proof (cases "match_pattern rest (fst (lexRules env ! i0)) t")
    case (Inl e)
    with Cons.prems lt show ?thesis by simp
  next
    case (Inr r)
    obtain mo t0 where r: "r = (mo, t0)" by (cases r)
    show ?thesis
    proof (cases mo)
      case None
      with Inr r have nf: "str_find rest (fst (lexRules env ! i0)) = NotFound"
        by (simp add: match_pattern_None)
      from Cons.prems lt Inr r None have "tryRules env idxs rest t = Inr (Some (i, m, t1))" by simp
      from Cons.IH[OF this] obtain k a b where k: "k < length idxs" "idxs ! k = i"
        "i < length (lexRules env)"
        "\<forall>j<k. idxs ! j < length (lexRules env)
                      \<and> str_find rest (fst (lexRules env ! (idxs ! j))) = NotFound"
        "str_find rest (fst (lexRules env ! i)) = Found a b"
        "m = take (b + 1 - a) (drop (a - 1) rest)"
        "t1 = (captureLocation m t)\<lparr>cursor := cursor t + length m
                        + (if rest = [] \<and> m = [] then 1 else 0)\<rparr>" by blast
      have "\<forall>j<Suc k. (i0 # idxs) ! j < length (lexRules env)
                      \<and> str_find rest (fst (lexRules env ! ((i0 # idxs) ! j))) = NotFound"
        using k(4) lt nf by (auto simp: nth_Cons split: nat.splits)
      with k show ?thesis
        by (intro exI[of _ "Suc k"] exI[of _ a] exI[of _ b]) simp
    next
      case (Some m0)
      with Inr r have mp: "match_pattern rest (fst (lexRules env ! i0)) t = Inr (Some m0, t0)" by simp
      from match_pattern_Some[OF mp] obtain a b where ab:
        "str_find rest (fst (lexRules env ! i0)) = Found a b"
        "m0 = take (b + 1 - a) (drop (a - 1) rest)"
        "t0 = (captureLocation m0 t)\<lparr>cursor := cursor t + length m0\<rparr>" by blast
      from Cons.prems lt mp have eq: "i = i0" "m = m0"
        "t1 = (if rest = [] \<and> m0 = [] then t0\<lparr>cursor := cursor t0 + 1\<rparr> else t0)" by auto
      from eq ab have "t1 = (captureLocation m t)\<lparr>cursor := cursor t + length m
                        + (if rest = [] \<and> m = [] then 1 else 0)\<rparr>"
        by (simp add: captureLocation_eq)
      with eq ab lt show ?thesis
        by (intro exI[of _ 0] exI[of _ a] exI[of _ b]) simp
    qed
  qed
qed

lemma scanRules_eq:
  "getCurrentState t = Some st \<Longrightarrow> lexRulesByConditions env st = Some idxs \<Longrightarrow>
   scanRules env t = tryRules env idxs (drop (cursor t) (str t)) t"
  by (simp add: scanRules_def)

lemma getNextToken_scan:
  "tokensQueue t = [] \<Longrightarrow> hasMoreTokens t \<Longrightarrow> scanRules env t = Inr (Some (i, m, t1)) \<Longrightarrow>
   getNextToken_step env t = runHandler env i m t1"
  by (simp add: getNextToken_step_def)

lemma getNextToken_unfold:
  "getNextToken env t =
     (case getNextToken_step env t of Return r \<Rightarrow> Some r | Again t1 \<Rightarrow> getNextToken env t1)"
  by (rule getNextToken.simps)

lemma scanRules_Some:
  assumes "scanRules env t = Inr (Some (i, m, t1))"
  shows "tokensQueue t1 = tokensQueue t \<and> str t1 = str t \<and> states t1 = states t
       \<and> cursor t1 = cursor t + length m
                    + (if drop (cursor t) (str t) = [] \<and> m = [] then 1 else 0)"
proof -
  from assms obtain idxs where
    "tryRules env idxs (drop (cursor t) (str t)) t = Inr (Some (i, m, t1))"
    by (auto simp: scanRules_def Let_def split: option.splits)
  from tryRules_Some[OF this] show ?thesis
    by (auto simp: captureLocation_eq)
qed

lemmas pattern_eval =
  str_find_def nospecials_def parse_pattern_def classEnd_def split_quant_def match_item_def
  call_def MAXCCALLS_def LUA_MAXCAPTURES_def matchbalance_def capture_to_close_def char_at_def
  matchbracketclass_def match_class_def tolower_def
  isdigit_def isupper_def islower_def isalpha_def isalnum_def isspace_def iscntrl_def
  isgraph_def ispunct_def isxdigit_def byte_def

lemmas tokenizer_eval =
  getNextToken_step_def scanRules_def runHandler_def match_pattern_def captureLocation_def
  toToken_def hasMoreTokens_def isEOF_def getCurrentState_def initString_def EOF_TOKEN_def
  EOF_def Let_def

section \<open>Which rule a scanning call of getNextToken chooses\<close>




section \<open>What a call of getNextToken returns, and when it returns\<close>

lemma never_empty_no_match_at_end: "never_empty env \<Longrightarrow> no_match_at_end env"
  unfolding never_empty_def no_match_at_end_def
proof (intro ballI allI notI)
  fix r a b
  assume ne: "\<forall>r\<in>set (lexRules env). \<forall>s a b. str_find s (fst r) = Found a b \<longrightarrow> a \<le> b"
    and r: "r \<in> set (lexRules env)" and f: "str_find [] (fst r) = Found a b"
  from ne r f have "a \<le> b" by blast
  with str_find_bound[OF f] show False by simp
qed

lemma scanRules_in_input:
  assumes "scanRules env t = Inr (Some (i, m, t1))" and "no_match_at_end env"
    and "hasMoreTokens t"
  shows "cursor t1 = cursor t + length m \<and> cursor t1 \<le> length (str t)
       \<and> str t1 = str t \<and> tokensQueue t1 = tokensQueue t
       \<and> (never_empty env \<longrightarrow> m \<noteq> [])"
proof -
  let ?rest = "drop (cursor t) (str t)"
  from assms(1) obtain idxs where
    "tryRules env idxs ?rest t = Inr (Some (i, m, t1))"
    by (auto simp: scanRules_def Let_def split: option.splits)
  from tryRules_Some[OF this] obtain a b where i: "i < length (lexRules env)"
    and f: "str_find ?rest (fst (lexRules env ! i)) = Found a b"
    and m: "m = take (b + 1 - a) (drop (a - 1) ?rest)" by blast
  from i have mem: "lexRules env ! i \<in> set (lexRules env)" by simp
  with assms(2) f have rest: "?rest \<noteq> []" unfolding no_match_at_end_def by metis
  from str_find_bound[OF f] have bd: "1 \<le> a" "a \<le> b + 1" "b \<le> length ?rest" by simp_all
  from m bd have len: "length m = b + 1 - a" by simp
  with bd have le: "length m \<le> length ?rest" by simp
  from assms(3) le have "cursor t + length m \<le> length (str t)"
    by (simp add: hasMoreTokens_def)
  moreover have "m \<noteq> []" if "never_empty env"
  proof -
    from that mem f have "a \<le> b" unfolding never_empty_def by blast
    with len show ?thesis by auto
  qed
  ultimately show ?thesis using scanRules_Some[OF assms(1)] rest by simp
qed

lemma toToken_queue [simp]:
  "toToken env ty text (t\<lparr>tokensQueue := q\<rparr>) = toToken env ty text t"
  by (simp add: toToken_def)

lemma toToken_yytext [simp]:
  "toToken env ty text (t\<lparr>yytext := y\<rparr>) = toToken env ty text t"
  "toToken env ty text (t\<lparr>yyleng := n\<rparr>) = toToken env ty text t"
  by (simp_all add: toToken_def)

lemma runHandler_cases:
  "(\<exists>e. runHandler env i m t = Return (Inl e))
   \<or> (\<exists>y. runHandler env i m t = Again (t\<lparr>yytext := y, yyleng := length m\<rparr>))
   \<or> (\<exists>ty y t2. runHandler env i m t = Return (Inr (toToken env ty (Some y) t, t2))
          \<and> str t2 = str t \<and> cursor t2 = cursor t)"
  by (auto simp: runHandler_def Let_def split: option.splits action_result.splits prod.splits)

lemma step_Return:
  assumes "getNextToken_step env t = Return r" and "no_match_at_end env" and "hasMoreTokens t"
  shows "emits env t r \<and> (never_empty env \<longrightarrow> advances t r)"
proof (cases "tokensQueue t = []")
  case False
  with assms(1,3) show ?thesis
    by (cases "tokensQueue t")
       (auto simp: getNextToken_step_def Let_def emits_def advances_def hasMoreTokens_def
          toToken_def)
next
  case True
  show ?thesis
  proof (cases "scanRules env t")
    case (Inl e)
    with True assms(1,3) show ?thesis
      by (auto simp: getNextToken_step_def emits_def advances_def)
  next
    case (Inr x)
    show ?thesis
    proof (cases x)
      case None
      with Inr True assms(1,3) show ?thesis
        by (auto simp: getNextToken_step_def emits_def advances_def hasMoreTokens_def isEOF_def
                 split: if_splits)
    next
      case (Some y)
      obtain i m t1 where y: "y = (i, m, t1)" by (cases y)
      with Inr Some have scan: "scanRules env t = Inr (Some (i, m, t1))" by simp
      from scanRules_in_input[OF scan assms(2,3)]
      have l: "cursor t1 = cursor t + length m" "cursor t1 \<le> length (str t)"
        "str t1 = str t" "never_empty env \<longrightarrow> m \<noteq> []" by simp_all
      from True assms(1,3) scan have "runHandler env i m t1 = Return r"
        by (simp add: getNextToken_step_def)
      with runHandler_cases[of env i m t1] l show ?thesis
        by (auto simp: emits_def advances_def hasMoreTokens_def toToken_def)
    qed
  qed
qed

lemma step_Again:
  assumes "getNextToken_step env t = Again t1" and "no_match_at_end env" and "hasMoreTokens t"
  shows "str t1 = str t \<and> hasMoreTokens t1 \<and> cursor t \<le> cursor t1
       \<and> (never_empty env \<longrightarrow> cursor t < cursor t1)"
proof -
  from assms(1) have q: "tokensQueue t = []"
    by (auto simp: getNextToken_step_def Let_def split: if_splits)
  with assms(1,3) obtain i m t0 where scan: "scanRules env t = Inr (Some (i, m, t0))"
    and run: "runHandler env i m t0 = Again t1"
    by (auto simp: getNextToken_step_def split: sum.splits option.splits if_splits)
  from scanRules_in_input[OF scan assms(2,3)]
  have l: "cursor t0 = cursor t + length m" "cursor t0 \<le> length (str t)"
    "str t0 = str t" "never_empty env \<longrightarrow> m \<noteq> []" by simp_all
  from run runHandler_cases[of env i m t0] l show ?thesis
    by (auto simp: hasMoreTokens_def)
qed

lemma emits_str: "str t1 = str t \<Longrightarrow> emits env t1 r \<Longrightarrow> emits env t r"
  by (auto simp: emits_def split: sum.splits)

lemma getNextToken_emits:
  assumes "getNextToken env t = Some r" and "no_match_at_end env" and "hasMoreTokens t"
  shows "emits env t r"
proof -
  have "no_match_at_end env \<longrightarrow> hasMoreTokens t \<longrightarrow> emits env t r"
  proof (rule getNextToken.raw_induct
           [where P = "\<lambda>env t r. no_match_at_end env \<longrightarrow> hasMoreTokens t \<longrightarrow> emits env t r",
            OF _ assms(1)])
    fix f :: "env \<Rightarrow> tokenizer \<Rightarrow> (error + token \<times> tokenizer) option" and env t r
    assume IH: "\<And>env t r. f env t = Some r
                  \<Longrightarrow> no_match_at_end env \<longrightarrow> hasMoreTokens t \<longrightarrow> emits env t r"
      and eq: "(case getNextToken_step env t of Return r \<Rightarrow> Some r | Again t1 \<Rightarrow> f env t1)
                 = Some r"
    show "no_match_at_end env \<longrightarrow> hasMoreTokens t \<longrightarrow> emits env t r"
    proof (intro impI)
      assume H: "no_match_at_end env" and more: "hasMoreTokens t"
      show "emits env t r"
      proof (cases "getNextToken_step env t")
        case (Return r0)
        with eq have "r0 = r" by simp
        with step_Return[OF Return H more] show ?thesis by simp
      next
        case (Again t1)
        with eq have "f env t1 = Some r" by simp
        from IH[OF this] H step_Again[OF Again H more]
        have "emits env t1 r" "str t1 = str t" by simp_all
        then show ?thesis by (auto intro: emits_str)
      qed
    qed
  qed
  with assms(2,3) show ?thesis by simp
qed

lemma advances_less: "cursor t < cursor t1 \<Longrightarrow> advances t1 r \<Longrightarrow> advances t r"
  by (auto simp: advances_def split: sum.splits)

lemma getNextToken_returns:
  assumes "never_empty env"
  shows "hasMoreTokens t \<Longrightarrow> \<exists>r. getNextToken env t = Some r \<and> advances t r"
proof (induction "length (str t) - cursor t" arbitrary: t rule: less_induct)
  case less
  note H = never_empty_no_match_at_end[OF assms]
  show ?case
  proof (cases "getNextToken_step env t")
    case (Return r)
    from step_Return[OF Return H less.prems] assms Return show ?thesis
      by (subst getNextToken_unfold) simp
  next
    case (Again t1)
    from step_Again[OF Again H less.prems] assms
    have s: "str t1 = str t" "cursor t < cursor t1" "hasMoreTokens t1" by simp_all
    then have "length (str t1) - cursor t1 < length (str t) - cursor t"
      by (simp add: hasMoreTokens_def)
    from less.hyps[OF this s(3)] obtain r where
      r: "getNextToken env t1 = Some r" "advances t1 r" by blast
    from advances_less[OF s(2) r(2)] r(1) Again show ?thesis
      by (subst getNextToken_unfold) simp
  qed
qed

section \<open>Unmatched input\<close>

text \<open>
  When the queue is empty, the cursor is before the end of the input and \<open>find\<close> finds
  none of the rules of the current start condition in the rest of the input,
  \<open>getNextToken\<close> returns no token and leaves the cursor where it is: it raises the error
  of \<open>throwUnexpectedToken\<close>, whose message shows the current line of the input, a caret
  under the current column, the character at the cursor, and the tokenizer's line and
  column counters.
\<close>

lemma unmatched_input_raises_UnexpectedToken:
  assumes "tokensQueue t = []" and "cursor t < length (str t)"
    and "getCurrentState t = Some st" and "lexRulesByConditions env st = Some idxs"
    and "\<forall>i\<in>set idxs. i < length (lexRules env)
            \<and> str_find (drop (cursor t) (str t)) (fst (lexRules env ! i)) = NotFound"
  shows "getNextToken env t =
     Some (Inl (UnexpectedToken
       ([CHR 0x0A, CHR 0x0A] @ lineSource (str t) (currentLine t) @ [CHR 0x0A]
        @ replicate (nat (currentColumn t)) (CHR '' '') @ [CHR ''^'', CHR 0x0A]
        @ ''Unexpected token: '' @ [CHR 0x22] @ [str t ! cursor t] @ [CHR 0x22] @ '' at ''
        @ string_of_nat (currentLine t) @ '':'' @ tostring (currentColumn t))))"
proof -
  from assms(5) have "tryRules env idxs (drop (cursor t) (str t)) t = Inr None"
    by (simp add: tryRules_None_iff)
  with assms(3,4) have scan: "scanRules env t = Inr None"
    by (simp add: scanRules_eq)
  from assms(2) have sym: "take 1 (drop (cursor t) (str t)) = [str t ! cursor t]"
    by (simp add: Cons_nth_drop_Suc[symmetric])
  from assms(1,2) scan sym have "getNextToken_step env t =
      Return (Inl (throwUnexpectedToken [str t ! cursor t] (currentLine t) (currentColumn t) t))"
    by (simp add: getNextToken_step_def hasMoreTokens_def isEOF_def)
  then show ?thesis
    by (subst getNextToken_unfold) (simp add: throwUnexpectedToken_def Let_def)
qed

text \<open>
  C6. The error names the offending character and the tokenizer's line and column
  counters, and the column counter is not always the column of the character. The
  tokenizer of S6 on the input \<open>a\<close>, space, newline, \<open>1\<close>: the first call returns the token
  \<open>a\<close>; the second skips the lexeme of the space and the newline and finds no rule for
  \<open>1\<close>. The error it raises names \<open>1\<close> at line 2, column 1, with the caret under column 1.
  The character \<open>1\<close> is at offset 3, and line 2 begins at offset 3: it is at column 0.
\<close>

theorem C6_column_of_unexpected_token:
  "callNextToken S6_env 2 (initString ''a \<newline>1'') =
     Some (Inl (UnexpectedToken
       ([CHR 0x0A, CHR 0x0A] @ ''1'' @ [CHR 0x0A] @ '' ^'' @ [CHR 0x0A]
        @ ''Unexpected token: '' @ [CHR 0x22] @ ''1'' @ [CHR 0x22] @ '' at 2:1'')))
   \<and> ''a \<newline>1'' ! 3 = CHR ''1''
   \<and> lineBegin ''a \<newline>1'' 3 = 3"
  by (simp add: numeral_2_eq_2 getNextToken.simps S6_env_def tokenizer_eval pattern_eval
        throwUnexpectedToken_def lineSource_def tostring_def string_of_nat.simps lineBegin_def)

section \<open>Handlers that return nothing or a table of token types\<close>

lemma getNextToken_queued:
  "tokensQueue t = q # qs \<Longrightarrow>
   getNextToken env t = Some (Inr (toToken env (Some q) None t, t\<lparr>tokensQueue := qs\<rparr>))"
  by (subst getNextToken_unfold) (simp add: getNextToken_step_def Let_def)

lemma callNextToken_queue:
  "tokensQueue t = qs \<Longrightarrow>
   callNextToken env (length qs) t =
     Some (Inr (map (\<lambda>q. toToken env (Some q) None t) qs, t\<lparr>tokensQueue := []\<rparr>))"
proof (induction qs arbitrary: t)
  case Nil
  then show ?case by simp
next
  case (Cons q qs)
  have "tokensQueue (t\<lparr>tokensQueue := qs\<rparr>) = qs" by simp
  from Cons.IH[OF this] getNextToken_queued[OF Cons.prems, of env]
  show ?case by simp
qed

text \<open>
  C4. Take a call of \<open>getNextToken\<close> that scans new input and in which a rule matches.
  The cursor is then past the lexeme. If the handler of the rule returns nothing, no
  token is made of the lexeme: \<open>getNextToken\<close> calls itself on the tokenizer with the
  cursor past the lexeme, and what that call returns is what the call returns; if no
  rule of the table ever matches an empty lexeme, the call does return. If the handler
  returns a table of token types, the call returns a token whose type is the number of
  the first type in the tokens map, with the text the handler left in \<open>yytext\<close> as value
  and the location of the lexeme, and leaves the other types in the queue, in their
  order; the next calls, as many as there are such types, return one token each, whose
  types are the numbers of the queued types in that order, with an empty value and the
  same location, and leave the tokenizer as it was but for the queue, which is empty
  again: no input is scanned by them.
\<close>

theorem C4_skip_and_queued_token_types:
  assumes "tokensQueue t = []" and "hasMoreTokens t"
    and "scanRules env t = Inr (Some (i, m, t1))"
    and "handlers env (snd (lexRules env ! i)) = Some h"
  shows "cursor t1 = cursor t + length m
            + (if drop (cursor t) (str t) = [] \<and> m = [] then 1 else 0)
     \<and> (h m = (Nothing, y) \<longrightarrow>
          getNextToken_step env t = Again (t1\<lparr>yytext := y, yyleng := length m\<rparr>)
          \<and> getNextToken env t = getNextToken env (t1\<lparr>yytext := y, yyleng := length m\<rparr>)
          \<and> (never_empty env \<longrightarrow> (\<exists>r. getNextToken env t = Some r)))
     \<and> (h m = (TokenTypes (ty # tys), y) \<longrightarrow>
          getNextToken env t =
            Some (Inr (\<lparr> ttype = tokensMap env ty, tvalue = Some y,
                          startOffset = Some (tokenStartOffset t1),
                          endOffset = Some (tokenEndOffset t1),
                          startLine = Some (tokenStartLine t1),
                          endLine = Some (tokenEndLine t1),
                          startColumn = Some (tokenStartColumn t1),
                          endColumn = Some (tokenEndColumn t1) \<rparr>,
                       t1\<lparr>yytext := y, yyleng := length m, tokensQueue := tys\<rparr>))
          \<and> callNextToken env (length tys)
                (t1\<lparr>yytext := y, yyleng := length m, tokensQueue := tys\<rparr>) =
              Some (Inr (map (\<lambda>q. \<lparr> ttype = tokensMap env q, tvalue = Some [],
                                      startOffset = Some (tokenStartOffset t1),
                                      endOffset = Some (tokenEndOffset t1),
                                      startLine = Some (tokenStartLine t1),
                                      endLine = Some (tokenEndLine t1),
                                      startColumn = Some (tokenStartColumn t1),
                                      endColumn = Some (tokenEndColumn t1) \<rparr>) tys,
                         t1\<lparr>yytext := y, yyleng := length m, tokensQueue := []\<rparr>)))"
proof -
  from scanRules_Some[OF assms(3)] assms(1)
  have q1: "tokensQueue t1 = []"
    and c1: "cursor t1 = cursor t + length m
            + (if drop (cursor t) (str t) = [] \<and> m = [] then 1 else 0)" by simp_all
  have step1: "getNextToken_step env t = runHandler env i m t1"
    by (rule getNextToken_scan[OF assms(1,2,3)])
  have step: "getNextToken env t =
      (case runHandler env i m t1 of Return r \<Rightarrow> Some r | Again t2 \<Rightarrow> getNextToken env t2)"
    using step1 by (subst getNextToken_unfold) simp
  have total: "never_empty env \<longrightarrow> (\<exists>r. getNextToken env t = Some r)"
    using getNextToken_returns[OF _ assms(2), of env] by blast
  have skip: "h m = (Nothing, y) \<longrightarrow>
          getNextToken_step env t = Again (t1\<lparr>yytext := y, yyleng := length m\<rparr>)
          \<and> getNextToken env t = getNextToken env (t1\<lparr>yytext := y, yyleng := length m\<rparr>)"
    using step step1 assms(4) by (simp add: runHandler_def Let_def)
  have first: "h m = (TokenTypes (ty # tys), y) \<longrightarrow>
          getNextToken env t =
            Some (Inr (\<lparr> ttype = tokensMap env ty, tvalue = Some y,
                          startOffset = Some (tokenStartOffset t1),
                          endOffset = Some (tokenEndOffset t1),
                          startLine = Some (tokenStartLine t1),
                          endLine = Some (tokenEndLine t1),
                          startColumn = Some (tokenStartColumn t1),
                          endColumn = Some (tokenEndColumn t1) \<rparr>,
                       t1\<lparr>yytext := y, yyleng := length m, tokensQueue := tys\<rparr>))"
    using step assms(4) q1 by (simp add: runHandler_def Let_def toToken_def)
  have "tokensQueue (t1\<lparr>yytext := y, yyleng := length m, tokensQueue := tys\<rparr>) = tys" by simp
  from callNextToken_queue[OF this, of env]
  have rest: "callNextToken env (length tys)
                (t1\<lparr>yytext := y, yyleng := length m, tokensQueue := tys\<rparr>) =
              Some (Inr (map (\<lambda>q. \<lparr> ttype = tokensMap env q, tvalue = Some [],
                                      startOffset = Some (tokenStartOffset t1),
                                      endOffset = Some (tokenEndOffset t1),
                                      startLine = Some (tokenStartLine t1),
                                      endLine = Some (tokenEndLine t1),
                                      startColumn = Some (tokenStartColumn t1),
                                      endColumn = Some (tokenEndColumn t1) \<rparr>) tys,
                         t1\<lparr>yytext := y, yyleng := length m, tokensQueue := []\<rparr>))"
    by (simp add: toToken_def)
  from c1 skip total first rest show ?thesis by blast
qed

lemma plus_item_not_empty:
  assumes "match_item src (PSingle cl QPlus) k d c s = Matched e c'" and "bounded src k"
  shows "s < e"
proof -
  from assms(1) have lt: "s < length src"
    and e: "max_expand k d c (s + 1)
              (length (takeWhile (singlematch cl) (drop (s + 1) src))) = Matched e c'"
    by (simp_all add: match_item_def split: if_splits)
  have "length (takeWhile (singlematch cl) (drop (s + 1) src)) \<le> length src - (s + 1)"
    using length_takeWhile_le[of "singlematch cl" "drop (s + 1) src"] by simp
  with lt have "s + 1 + length (takeWhile (singlematch cl) (drop (s + 1) src)) \<le> length src"
    by simp
  from max_expand_bound[OF assms(2) e this] show ?thesis by simp
qed

lemma anchored_plus_not_empty:
  assumes "parse_pattern p = PSingle cl QPlus # ps" and "str_find s (CHR ''^'' # p) = Found a b"
  shows "a \<le> b"
proof -
  have "\<not> nospecials (CHR ''^'' # p)" by (simp add: nospecials_def)
  with assms have f: "find_from s (PSingle cl QPlus # ps) [0] = Found a b"
    by (simp add: str_find_def)
  then obtain caps where m: "call (do_match s (PSingle cl QPlus # ps)) MAXCCALLS [] 0
                               = Matched b caps" and a: "a = 1"
    by (auto split: mres.splits if_splits)
  from m have "match_item s (PSingle cl QPlus) (do_match s ps) (MAXCCALLS - 1) [] 0
                 = Matched b caps"
    by (simp add: call_def split: if_splits)
  from plus_item_not_empty[OF this do_match_bound] a show ?thesis by simp
qed

lemma never_empty_S6: "never_empty S6_env"
proof -
  have ws: "parse_pattern ''%s+'' = [PSingle (CClass (CHR ''s'')) QPlus]"
    by (simp add: parse_pattern_def classEnd_def split_quant_def isdigit_def byte_def)
  have id: "parse_pattern ''[a-z]+''
              = [PSingle (CSet True [SRange (CHR ''a'') (CHR ''z'')]) QPlus]"
    by (simp add: parse_pattern_def classEnd_def split_quant_def isdigit_def byte_def)
  from anchored_plus_not_empty[OF ws] anchored_plus_not_empty[OF id] show ?thesis
    unfolding never_empty_def S6_env_def by auto
qed

theorem C4_skip_and_queued_token_types_witness:
  "getNextToken S6_env (initString '' ab'') =
     Some (Inr (\<lparr> ttype = Some 1, tvalue = Some ''ab'', startOffset = Some 1,
                   endOffset = Some 3, startLine = Some 1, endLine = Some 1,
                   startColumn = Some 1, endColumn = Some 3 \<rparr>,
                \<lparr> str = '' ab'', states = [''INITIAL''], cursor = 3, tokensQueue = [],
                  currentLine = 1, currentColumn = 3, currentLineBeginOffset = 0,
                  tokenStartOffset = 1, tokenEndOffset = 3, tokenStartLine = 1,
                  tokenEndLine = 1, tokenStartColumn = 1, tokenEndColumn = 3,
                  yytext = ''ab'', yyleng = 2 \<rparr>))
   \<and> callNextToken queue_env 3 (initString ''ab'') =
       Some (Inr ([\<lparr> ttype = Some 1, tvalue = Some ''ab'', startOffset = Some 0,
                     endOffset = Some 2, startLine = Some 1, endLine = Some 1,
                     startColumn = Some 0, endColumn = Some 2 \<rparr>,
                   \<lparr> ttype = Some 3, tvalue = Some [], startOffset = Some 0,
                     endOffset = Some 2, startLine = Some 1, endLine = Some 1,
                     startColumn = Some 0, endColumn = Some 2 \<rparr>,
                   \<lparr> ttype = Some 4, tvalue = Some [], startOffset = Some 0,
                     endOffset = Some 2, startLine = Some 1, endLine = Some 1,
                     startColumn = Some 0, endColumn = Some 2 \<rparr>],
                  \<lparr> str = ''ab'', states = [''INITIAL''], cursor = 2, tokensQueue = [],
                    currentLine = 1, currentColumn = 2, currentLineBeginOffset = 0,
                    tokenStartOffset = 0, tokenEndOffset = 2, tokenStartLine = 1,
                    tokenEndLine = 1, tokenStartColumn = 0, tokenEndColumn = 2,
                    yytext = ''ab'', yyleng = 2 \<rparr>))"
proof -
  let ?s = "initString '' ab''"
  let ?s1 = "\<lparr> str = '' ab'', states = [''INITIAL''], cursor = 1, tokensQueue = [],
                  currentLine = 1, currentColumn = 1, currentLineBeginOffset = 0,
                  tokenStartOffset = 0, tokenEndOffset = 1, tokenStartLine = 1,
                  tokenEndLine = 1, tokenStartColumn = 0, tokenEndColumn = 1,
                  yytext = [], yyleng = 0 \<rparr>"
  let ?t = "initString ''ab''"
  let ?t1 = "\<lparr> str = ''ab'', states = [''INITIAL''], cursor = 2, tokensQueue = [],
                    currentLine = 1, currentColumn = 2, currentLineBeginOffset = 0,
                    tokenStartOffset = 0, tokenEndOffset = 2, tokenStartLine = 1,
                    tokenEndLine = 1, tokenStartColumn = 0, tokenEndColumn = 2,
                    yytext = [], yyleng = 0 \<rparr>"
  have qs: "tokensQueue ?s = []" and ms: "hasMoreTokens ?s"
    and qt: "tokensQueue ?t = []" and mt: "hasMoreTokens ?t"
    by (simp_all add: initString_def hasMoreTokens_def)
  have scan_s: "scanRules S6_env ?s = Inr (Some (0, '' '', ?s1))"
    by (simp add: S6_env_def tokenizer_eval pattern_eval)
  have h_s: "handlers S6_env (snd (lexRules S6_env ! 0)) = Some (\<lambda>y. (Nothing, y))"
    by (simp add: S6_env_def)
  have scan_t: "scanRules queue_env ?t = Inr (Some (1, ''ab'', ?t1))"
    by (simp add: queue_env_def tokenizer_eval pattern_eval)
  have h_t: "handlers queue_env (snd (lexRules queue_env ! 1))
               = Some (\<lambda>y. (TokenTypes [''ID'', ''A'', ''B''], y))"
    by (simp add: queue_env_def)
  from C4_skip_and_queued_token_types[OF qs ms scan_s h_s, of "'' ''"]
  have skip: "getNextToken S6_env ?s = getNextToken S6_env (?s1\<lparr>yytext := '' '', yyleng := 1\<rparr>)"
    by simp
  have next_s: "getNextToken S6_env (?s1\<lparr>yytext := '' '', yyleng := 1\<rparr>) =
     Some (Inr (\<lparr> ttype = Some 1, tvalue = Some ''ab'', startOffset = Some 1,
                   endOffset = Some 3, startLine = Some 1, endLine = Some 1,
                   startColumn = Some 1, endColumn = Some 3 \<rparr>,
                \<lparr> str = '' ab'', states = [''INITIAL''], cursor = 3, tokensQueue = [],
                  currentLine = 1, currentColumn = 3, currentLineBeginOffset = 0,
                  tokenStartOffset = 1, tokenEndOffset = 3, tokenStartLine = 1,
                  tokenEndLine = 1, tokenStartColumn = 1, tokenEndColumn = 3,
                  yytext = ''ab'', yyleng = 2 \<rparr>))"
    by (simp add: getNextToken.simps S6_env_def tokenizer_eval pattern_eval)
  from C4_skip_and_queued_token_types[OF qt mt scan_t h_t, of "''ab''" "''ID''" "[''A'', ''B'']"]
  have queue: "getNextToken queue_env ?t =
            Some (Inr (\<lparr> ttype = tokensMap queue_env ''ID'', tvalue = Some ''ab'',
                          startOffset = Some 0, endOffset = Some 2, startLine = Some 1,
                          endLine = Some 1, startColumn = Some 0, endColumn = Some 2 \<rparr>,
                       ?t1\<lparr>yytext := ''ab'', yyleng := 2, tokensQueue := [''A'', ''B'']\<rparr>))"
    and rest: "callNextToken queue_env (length [''A'', ''B''])
                (?t1\<lparr>yytext := ''ab'', yyleng := 2, tokensQueue := [''A'', ''B'']\<rparr>) =
              Some (Inr (map (\<lambda>q. \<lparr> ttype = tokensMap queue_env q, tvalue = Some [],
                                      startOffset = Some 0, endOffset = Some 2,
                                      startLine = Some 1, endLine = Some 1,
                                      startColumn = Some 0, endColumn = Some 2 \<rparr>)
                           [''A'', ''B''],
                         ?t1\<lparr>yytext := ''ab'', yyleng := 2, tokensQueue := []\<rparr>))"
    by (simp_all add: numeral_2_eq_2 del: callNextToken.simps)
  have "callNextToken queue_env 3 ?t =
       Some (Inr ([\<lparr> ttype = Some 1, tvalue = Some ''ab'', startOffset = Some 0,
                     endOffset = Some 2, startLine = Some 1, endLine = Some 1,
                     startColumn = Some 0, endColumn = Some 2 \<rparr>,
                   \<lparr> ttype = Some 3, tvalue = Some [], startOffset = Some 0,
                     endOffset = Some 2, startLine = Some 1, endLine = Some 1,
                     startColumn = Some 0, endColumn = Some 2 \<rparr>,
                   \<lparr> ttype = Some 4, tvalue = Some [], startOffset = Some 0,
                     endOffset = Some 2, startLine = Some 1, endLine = Some 1,
                     startColumn = Some 0, endColumn = Some 2 \<rparr>],
                  \<lparr> str = ''ab'', states = [''INITIAL''], cursor = 2, tokensQueue = [],
                    currentLine = 1, currentColumn = 2, currentLineBeginOffset = 0,
                    tokenStartOffset = 0, tokenEndOffset = 2, tokenStartLine = 1,
                    tokenEndLine = 1, tokenStartColumn = 0, tokenEndColumn = 2,
                    yytext = ''ab'', yyleng = 2 \<rparr>))"
    using queue rest by (simp add: numeral_3_eq_3 numeral_2_eq_2 queue_env_def)
  with skip next_s show ?thesis by simp
qed

section \<open>Locations\<close>

text \<open>
  Scenario S6 on the tokenizer: the input \<open>ab\<close>, newline, \<open>cd\<close> gives the token \<open>ab\<close> from
  line 1, column 0 to line 1, column 2, the token \<open>cd\<close> from line 2, column 0 to line 2,
  column 2, and the EOF token.
\<close>

lemma S6_tokens:
  "callNextToken S6_env 3 (initString ''ab\<newline>cd'') =
     Some (Inr ([\<lparr>ttype = Some 1, tvalue = Some ''ab'', startOffset = Some 0, endOffset = Some 2,
                  startLine = Some 1, endLine = Some 1, startColumn = Some 0, endColumn = Some 2\<rparr>,
                 \<lparr>ttype = Some 1, tvalue = Some ''cd'', startOffset = Some 3, endOffset = Some 5,
                  startLine = Some 2, endLine = Some 2, startColumn = Some 0, endColumn = Some 2\<rparr>,
                 \<lparr>ttype = Some 2, tvalue = None, startOffset = None, endOffset = None,
                  startLine = None, endLine = None, startColumn = None, endColumn = None\<rparr>],
                \<lparr>str = ''ab\<newline>cd'', states = [''INITIAL''], cursor = 6, tokensQueue = [],
                 currentLine = 2, currentColumn = 2, currentLineBeginOffset = 3,
                 tokenStartOffset = 3, tokenEndOffset = 5, tokenStartLine = 2, tokenEndLine = 2,
                 tokenStartColumn = 0, tokenEndColumn = 2, yytext = ''cd'', yyleng = 2\<rparr>))"
  by (simp add: numeral_3_eq_3 getNextToken.simps S6_env_def tokenizer_eval pattern_eval)

text \<open>
  C3. A token's start column is not always its start offset minus the begin offset of
  the line it lies on. The tokenizer of S6 on the input \<open>a\<close>, space, newline, \<open>b\<close> returns
  the token \<open>a\<close> and then the token \<open>b\<close>. The token \<open>b\<close> is on line 2, from offset 3 to offset
  4, and line 2 begins at offset 3, after the newline at offset 2: the token spans column 0
  to column 1. The tokenizer gives it the start column 1 and the end column 2: while
  it skips the lexeme of the space and the newline, which starts at offset 1,
  \<open>_captureLocation\<close> sets the begin offset of the line to the cursor plus 1, which is 2,
  and not to the offset after the newline.
\<close>

theorem C3_start_column_after_newline_in_lexeme:
  "callNextToken S6_env 2 (initString ''a \<newline>b'') =
     Some (Inr ([\<lparr>ttype = Some 1, tvalue = Some ''a'', startOffset = Some 0, endOffset = Some 1,
                  startLine = Some 1, endLine = Some 1, startColumn = Some 0, endColumn = Some 1\<rparr>,
                 \<lparr>ttype = Some 1, tvalue = Some ''b'', startOffset = Some 3, endOffset = Some 4,
                  startLine = Some 2, endLine = Some 2, startColumn = Some 1, endColumn = Some 2\<rparr>],
                \<lparr>str = ''a \<newline>b'', states = [''INITIAL''], cursor = 4, tokensQueue = [],
                 currentLine = 2, currentColumn = 2, currentLineBeginOffset = 2,
                 tokenStartOffset = 3, tokenEndOffset = 4, tokenStartLine = 2, tokenEndLine = 2,
                 tokenStartColumn = 1, tokenEndColumn = 2, yytext = ''b'', yyleng = 1\<rparr>))
   \<and> lineBegin ''a \<newline>b'' 3 = 3
   \<and> lineBegin ''a \<newline>b'' 4 = 3"
  by (simp add: numeral_2_eq_2 getNextToken.simps S6_env_def tokenizer_eval pattern_eval
        lineBegin_def)

section \<open>Tokenizing to the end of the input\<close>

lemma tokenizes_finished:
  "tokenizes env t toks r \<Longrightarrow> \<not> hasMoreTokens t \<Longrightarrow> toks = [] \<and> r = None"
  by (erule tokenizes.cases) simp_all

lemma tokenizes_ends_with_EOF:
  "tokenizes env t toks r \<Longrightarrow> no_match_at_end env \<Longrightarrow> hasMoreTokens t \<Longrightarrow> r = None
   \<Longrightarrow> \<exists>ts. toks = ts @ [EOF_TOKEN env] \<and> (\<forall>x\<in>set ts. tvalue x \<noteq> None)"
proof (induction rule: tokenizes.induct)
  case (finished t env)
  then show ?case by simp
next
  case (failed t env e)
  then show ?case by simp
next
  case (next_token t env tok t1 toks r)
  from getNextToken_emits[OF next_token.hyps(2) next_token.prems(1) next_token.hyps(1)]
  have em: "if hasMoreTokens t1 then tvalue tok \<noteq> None else tok = EOF_TOKEN env"
    by (simp add: emits_def)
  show ?case
  proof (cases "hasMoreTokens t1")
    case True
    from next_token.IH[OF next_token.prems(1) True next_token.prems(3)] obtain ts where
      ts: "toks = ts @ [EOF_TOKEN env]" "\<forall>x\<in>set ts. tvalue x \<noteq> None" by blast
    from em True have "tvalue tok \<noteq> None" by simp
    with ts have "tok # toks = (tok # ts) @ [EOF_TOKEN env] \<and> (\<forall>x\<in>set (tok # ts). tvalue x \<noteq> None)"
      by simp
    then show ?thesis by blast
  next
    case False
    from tokenizes_finished[OF next_token.hyps(3) False] have "toks = []" by simp
    moreover from em False have "tok = EOF_TOKEN env" by simp
    ultimately have "tok # toks = [] @ [EOF_TOKEN env] \<and> (\<forall>x\<in>set []. tvalue x \<noteq> None)"
      by simp
    then show ?thesis by blast
  qed
qed

lemma tokenizes_total:
  assumes "never_empty env"
  shows "\<exists>toks r. tokenizes env t toks r"
proof -
  have "wf (measures [\<lambda>t. length (str t) + 1 - cursor t, \<lambda>t. length (tokensQueue t)])"
    by simp
  then show ?thesis
  proof (induction t rule: wf_induct_rule)
    case (less t)
    show ?case
    proof (cases "hasMoreTokens t")
      case False
      then show ?thesis by (blast intro: tokenizes.finished)
    next
      case True
      from getNextToken_returns[OF assms True] obtain r where
        r: "getNextToken env t = Some r" "advances t r" by blast
      from getNextToken_emits[OF r(1) never_empty_no_match_at_end[OF assms] True]
      have em: "emits env t r" .
      show ?thesis
      proof (cases r)
        case (Inl e)
        with r(1) True show ?thesis by (blast intro: tokenizes.failed)
      next
        case (Inr p)
        obtain tok t1 where p: "p = (tok, t1)" by (cases p)
        with r(1) Inr have g: "getNextToken env t = Some (Inr (tok, t1))" by simp
        show ?thesis
        proof (cases "hasMoreTokens t1")
          case False
          then have "tokenizes env t1 [] None" by (rule tokenizes.finished)
          from tokenizes.next_token[OF True g this] show ?thesis by blast
        next
          case more: True
          with r(2) em Inr p have s: "str t1 = str t"
            and dec: "cursor t < cursor t1
                      \<or> cursor t1 = cursor t \<and> length (tokensQueue t1) < length (tokensQueue t)"
            by (simp_all add: emits_def advances_def)
          from dec s more
          have "(t1, t) \<in> measures [\<lambda>t. length (str t) + 1 - cursor t,
                                     \<lambda>t. length (tokensQueue t)]"
            by (auto simp: hasMoreTokens_def)
          from less[OF this] obtain toks r' where "tokenizes env t1 toks r'" by blast
          from tokenizes.next_token[OF True g this] show ?thesis by blast
        qed
      qed
    qed
  qed
qed

text \<open>
  C5, as the code has it. The callers of the tokenizer call \<open>getNextToken\<close> for as long
  as \<open>hasMoreTokens\<close> holds. Let no rule of the table match the empty rest that is left at
  the end of the input. Then whenever these calls tokenize an input to completion, the
  last token they return is the EOF token, whose type is the number of \<open>$\<close> in the tokens
  map and which has no value, and it is the only one: every token before it carries a
  value. If moreover no rule ever matches an empty lexeme, the calls do come to an end
  for every input: with \<open>hasMoreTokens\<close> false or with an error.
\<close>

theorem C5_one_EOF_token_at_the_end:
  "(no_match_at_end env \<longrightarrow>
      (\<forall>toks. tokenizes env (initString s) toks None \<longrightarrow>
         (\<exists>ts. toks = ts @ [\<lparr> ttype = tokensMap env ''$'', tvalue = None, startOffset = None,
                                endOffset = None, startLine = None, endLine = None,
                                startColumn = None, endColumn = None \<rparr>]
               \<and> (\<forall>x\<in>set ts. tvalue x \<noteq> None)
               \<and> length (filter (\<lambda>x. tvalue x = None) toks) = 1)))
   \<and> (never_empty env \<longrightarrow> (\<exists>toks r. tokenizes env (initString s) toks r))"
proof -
  have more: "hasMoreTokens (initString s)"
    by (simp add: hasMoreTokens_def initString_def)
  have one: "\<exists>ts. toks = ts @ [\<lparr> ttype = tokensMap env ''$'', tvalue = None, startOffset = None,
                                endOffset = None, startLine = None, endLine = None,
                                startColumn = None, endColumn = None \<rparr>]
               \<and> (\<forall>x\<in>set ts. tvalue x \<noteq> None)
               \<and> length (filter (\<lambda>x. tvalue x = None) toks) = 1"
    if H: "no_match_at_end env" and run: "tokenizes env (initString s) toks None" for toks
  proof -
    from tokenizes_ends_with_EOF[OF run H more] obtain ts where
      ts: "toks = ts @ [EOF_TOKEN env]" "\<forall>x\<in>set ts. tvalue x \<noteq> None" by blast
    from ts(2) have "filter (\<lambda>x. tvalue x = None) ts = []" by (auto simp: filter_empty_conv)
    with ts have "length (filter (\<lambda>x. tvalue x = None) toks) = 1"
      by (simp add: EOF_TOKEN_def)
    with ts show ?thesis by (auto simp: EOF_TOKEN_def EOF_def)
  qed
  with tokenizes_total[of env "initString s"] show ?thesis by blast
qed

theorem C5_one_EOF_token_at_the_end_witness:
  "tokenizes S6_env (initString ''ab\<newline>cd'')
     [\<lparr>ttype = Some 1, tvalue = Some ''ab'', startOffset = Some 0, endOffset = Some 2,
       startLine = Some 1, endLine = Some 1, startColumn = Some 0, endColumn = Some 2\<rparr>,
      \<lparr>ttype = Some 1, tvalue = Some ''cd'', startOffset = Some 3, endOffset = Some 5,
       startLine = Some 2, endLine = Some 2, startColumn = Some 0, endColumn = Some 2\<rparr>,
      \<lparr>ttype = Some 2, tvalue = None, startOffset = None, endOffset = None,
       startLine = None, endLine = None, startColumn = None, endColumn = None\<rparr>] None
   \<and> (\<exists>toks. tokenizes S6_env (initString ''ab\<newline>cd'') toks None
              \<and> length (filter (\<lambda>x. tvalue x = None) toks) = 1
              \<and> ttype (last toks) = Some 2)"
proof -
  let ?t0 = "initString ''ab\<newline>cd''"
  let ?t1 = "\<lparr>str = ''ab\<newline>cd'', states = [''INITIAL''], cursor = 2, tokensQueue = [],
              currentLine = 1, currentColumn = 2, currentLineBeginOffset = 0,
              tokenStartOffset = 0, tokenEndOffset = 2, tokenStartLine = 1, tokenEndLine = 1,
              tokenStartColumn = 0, tokenEndColumn = 2, yytext = ''ab'', yyleng = 2\<rparr>"
  let ?t2 = "\<lparr>str = ''ab\<newline>cd'', states = [''INITIAL''], cursor = 5, tokensQueue = [],
              currentLine = 2, currentColumn = 2, currentLineBeginOffset = 3,
              tokenStartOffset = 3, tokenEndOffset = 5, tokenStartLine = 2, tokenEndLine = 2,
              tokenStartColumn = 0, tokenEndColumn = 2, yytext = ''cd'', yyleng = 2\<rparr>"
  let ?t3 = "\<lparr>str = ''ab\<newline>cd'', states = [''INITIAL''], cursor = 6, tokensQueue = [],
              currentLine = 2, currentColumn = 2, currentLineBeginOffset = 3,
              tokenStartOffset = 3, tokenEndOffset = 5, tokenStartLine = 2, tokenEndLine = 2,
              tokenStartColumn = 0, tokenEndColumn = 2, yytext = ''cd'', yyleng = 2\<rparr>"
  let ?ab = "\<lparr>ttype = Some 1, tvalue = Some ''ab'', startOffset = Some 0, endOffset = Some 2,
       startLine = Some 1, endLine = Some 1, startColumn = Some 0, endColumn = Some 2\<rparr>"
  let ?cd = "\<lparr>ttype = Some 1, tvalue = Some ''cd'', startOffset = Some 3, endOffset = Some 5,
       startLine = Some 2, endLine = Some 2, startColumn = Some 0, endColumn = Some 2\<rparr>"
  let ?eof = "\<lparr>ttype = Some 2, tvalue = None, startOffset = None, endOffset = None,
       startLine = None, endLine = None, startColumn = None, endColumn = None\<rparr>"
  have more: "hasMoreTokens ?t0" "hasMoreTokens ?t1" "hasMoreTokens ?t2" "\<not> hasMoreTokens ?t3"
    by (simp_all add: hasMoreTokens_def initString_def)
  have g0: "getNextToken S6_env ?t0 = Some (Inr (?ab, ?t1))"
    by (simp add: getNextToken.simps S6_env_def tokenizer_eval pattern_eval)
  have g1: "getNextToken S6_env ?t1 = Some (Inr (?cd, ?t2))"
    by (simp add: getNextToken.simps S6_env_def tokenizer_eval pattern_eval)
  have g2: "getNextToken S6_env ?t2 = Some (Inr (?eof, ?t3))"
    by (simp add: getNextToken.simps S6_env_def tokenizer_eval pattern_eval)
  have run: "tokenizes S6_env ?t0 [?ab, ?cd, ?eof] None"
    by (intro tokenizes.next_token[OF more(1) g0] tokenizes.next_token[OF more(2) g1]
          tokenizes.next_token[OF more(3) g2] tokenizes.finished[OF more(4)])
  from C5_one_EOF_token_at_the_end[of S6_env "''ab\<newline>cd''"]
    never_empty_no_match_at_end[OF never_empty_S6] run
  obtain ts where "[?ab, ?cd, ?eof] = ts @ [\<lparr> ttype = tokensMap S6_env ''$'', tvalue = None,
        startOffset = None, endOffset = None, startLine = None, endLine = None,
        startColumn = None, endColumn = None \<rparr>]"
    "length (filter (\<lambda>x. tvalue x = None) [?ab, ?cd, ?eof]) = 1"
    by blast
  then have "length (filter (\<lambda>x. tvalue x = None) [?ab, ?cd, ?eof]) = 1
      \<and> ttype (last [?ab, ?cd, ?eof]) = Some 2"
    by simp
  with run show ?thesis by blast
qed

text \<open>
  A rule that matches the empty string matches the empty rest at the end of the input,
  and \<open>getNextToken\<close> then moves the cursor past the end with the token of that rule. The
  tokenizer whose one rule \<open>%s*\<close> returns \<open>WS\<close>, on the input of one space: the first call
  returns the token \<open>WS\<close> of the space, the second the token \<open>WS\<close> of the empty string at
  the end, and \<open>hasMoreTokens\<close> is false. The input is tokenized to completion, and no \<open>$\<close>
  token is among the tokens: both have the type 1 of \<open>WS\<close>, the type of \<open>$\<close> is 2.
\<close>

theorem C5_no_EOF_token_counterexample:
  "tokenizes ws_env (initString '' '')
     [\<lparr>ttype = Some 1, tvalue = Some '' '', startOffset = Some 0, endOffset = Some 1,
       startLine = Some 1, endLine = Some 1, startColumn = Some 0, endColumn = Some 1\<rparr>,
      \<lparr>ttype = Some 1, tvalue = Some [], startOffset = Some 1, endOffset = Some 1,
       startLine = Some 1, endLine = Some 1, startColumn = Some 1, endColumn = Some 1\<rparr>] None
   \<and> tokensMap ws_env ''$'' = Some 2
   \<and> str_find [] ''^%s*'' = Found 1 0"
proof -
  let ?t0 = "initString '' ''"
  let ?t1 = "\<lparr>str = '' '', states = [''INITIAL''], cursor = 1, tokensQueue = [],
           currentLine = 1, currentColumn = 1, currentLineBeginOffset = 0,
           tokenStartOffset = 0, tokenEndOffset = 1, tokenStartLine = 1,
           tokenEndLine = 1, tokenStartColumn = 0, tokenEndColumn = 1,
           yytext = '' '', yyleng = 1\<rparr>"
  let ?t2 = "\<lparr>str = '' '', states = [''INITIAL''], cursor = 2, tokensQueue = [],
           currentLine = 1, currentColumn = 1, currentLineBeginOffset = 0,
           tokenStartOffset = 1, tokenEndOffset = 1, tokenStartLine = 1,
           tokenEndLine = 1, tokenStartColumn = 1, tokenEndColumn = 1,
           yytext = [], yyleng = 0\<rparr>"
  let ?w1 = "\<lparr>ttype = Some 1, tvalue = Some '' '', startOffset = Some 0, endOffset = Some 1,
       startLine = Some 1, endLine = Some 1, startColumn = Some 0, endColumn = Some 1\<rparr>"
  let ?w2 = "\<lparr>ttype = Some 1, tvalue = Some [], startOffset = Some 1, endOffset = Some 1,
       startLine = Some 1, endLine = Some 1, startColumn = Some 1, endColumn = Some 1\<rparr>"
  have more: "hasMoreTokens ?t0" "hasMoreTokens ?t1" "\<not> hasMoreTokens ?t2"
    by (simp_all add: hasMoreTokens_def initString_def)
  have g0: "getNextToken ws_env ?t0 = Some (Inr (?w1, ?t1))"
    by (simp add: getNextToken.simps ws_env_def tokenizer_eval pattern_eval)
  have g1: "getNextToken ws_env ?t1 = Some (Inr (?w2, ?t2))"
    by (simp add: getNextToken.simps ws_env_def tokenizer_eval pattern_eval)
  have run: "tokenizes ws_env ?t0 [?w1, ?w2] None"
    by (intro tokenizes.next_token[OF more(1) g0] tokenizes.next_token[OF more(2) g1]
          tokenizes.finished[OF more(3)])
  have "tokensMap ws_env ''$'' = Some 2" by (simp add: ws_env_def)
  moreover have "str_find [] ''^%s*'' = Found 1 0" by (simp add: pattern_eval)
  ultimately show ?thesis using run by simp
qed

text \<open>
  The same tokenizer on the input \<open>a\<close>: the rule matches the empty string in front of \<open>a\<close>,
  every call of \<open>getNextToken\<close> returns a token \<open>WS\<close> of the empty string and leaves the
  cursor where it is, and the calls never come to an end.
\<close>

lemma tokenizes_never_ends:
  "tokenizes env t toks r \<Longrightarrow> env = ws_env \<Longrightarrow> str t = ''a'' \<Longrightarrow> cursor t = 0
   \<Longrightarrow> tokensQueue t = [] \<Longrightarrow> states t = [''INITIAL''] \<Longrightarrow> False"
proof (induction rule: tokenizes.induct)
  case (finished t env)
  then show ?case by (simp add: hasMoreTokens_def)
next
  case (failed t env e)
  then show ?case
    by (simp add: getNextToken.simps ws_env_def tokenizer_eval pattern_eval)
next
  case (next_token t env tok t1 toks r)
  from next_token.hyps(2) next_token.prems
  have "str t1 = ''a'' \<and> cursor t1 = 0 \<and> tokensQueue t1 = [] \<and> states t1 = [''INITIAL'']"
    by (auto simp: getNextToken.simps ws_env_def tokenizer_eval pattern_eval newlines_eq)
  with next_token.IH next_token.prems(1) show ?case by simp
qed

lemma empty_match_never_ends: "\<not> tokenizes ws_env (initString ''a'') toks r"
  using tokenizes_never_ends[of ws_env "initString ''a''" toks r]
  by (auto simp: initString_def)

section \<open>Merging lexical grammars\<close>

text \<open>
  With \<open>ignore-whitespaces\<close> set and no \<open>lex\<close> option, \<open>getLexGrammarData\<close> returns data
  with exactly one rule, \<open>\s+\<close> with an empty handler, and for a grammar without \<open>lex\<close> this
  is the lexical grammar \<open>getGrammar\<close> goes on with. For a grammar with its own \<open>lex\<close>:
  without other lexical grammar data it is left as it is; with other data that has
  rules, in particular the data of the file of the \<open>lex\<close> option, the rules of the result
  are the grammar's own rules followed by the other rules.
\<close>

lemma whitespace_rule_and_appended_rules:
  "(ignore_whitespaces options \<and> lex_option options = None \<longrightarrow>
      (\<exists>d. getLexGrammarData file options = Some d
            \<and> rules d = Some [LexRuleData None [CHR 0x5C, CHR ''s'', CHR ''+''] []])
      \<and> (\<exists>d. getGrammar_lex file options None = Inr (Some d)
               \<and> rules d = Some [LexRuleData None [CHR 0x5C, CHR ''s'', CHR ''+''] []]))
   \<and> (rules gl = Some grammar_rules \<longrightarrow>
        (getLexGrammarData file options = None \<longrightarrow>
           getGrammar_lex file options (Some gl) = Inr (Some gl))
        \<and> (\<forall>ld lex_rules.
              getLexGrammarData file options = Some ld \<and> rules ld = Some lex_rules \<longrightarrow>
              getGrammar_lex file options (Some gl)
                = Inr (Some (gl\<lparr>rules := Some (grammar_rules @ lex_rules)\<rparr>)))
        \<and> (\<forall>path lex_rules.
              lex_option options = Some path \<and> path \<noteq> [] \<and> rules (file path) = Some lex_rules \<longrightarrow>
              getGrammar_lex file options (Some gl)
                = Inr (Some (gl\<lparr>rules := Some (grammar_rules @ lex_rules)\<rparr>))))"
proof -
  have ws: "ignore_whitespaces options \<and> lex_option options = None \<longrightarrow>
      (\<exists>d. getLexGrammarData file options = Some d
            \<and> rules d = Some [LexRuleData None [CHR 0x5C, CHR ''s'', CHR ''+''] []])"
    by (simp add: getLexGrammarData_def Let_def)
  then have ws2: "ignore_whitespaces options \<and> lex_option options = None \<longrightarrow>
      (\<exists>d. getGrammar_lex file options None = Inr (Some d)
            \<and> rules d = Some [LexRuleData None [CHR 0x5C, CHR ''s'', CHR ''+''] []])"
    by (simp add: getGrammar_lex_def Let_def)
  have keep: "getLexGrammarData file options = None \<longrightarrow>
           getGrammar_lex file options (Some gl) = Inr (Some gl)"
    by (simp add: getGrammar_lex_def Let_def)
  have app: "getGrammar_lex file options (Some gl)
                = Inr (Some (gl\<lparr>rules := Some (grammar_rules @ lex_rules)\<rparr>))"
    if "rules gl = Some grammar_rules" "getLexGrammarData file options = Some ld"
      "rules ld = Some lex_rules" for ld lex_rules
    using that by (simp add: getGrammar_lex_def Let_def)
  have ext: "\<exists>ld. getLexGrammarData file options = Some ld \<and> rules ld = Some lex_rules"
    if "lex_option options = Some path" "path \<noteq> []" "rules (file path) = Some lex_rules"
    for path lex_rules
    using that by (simp add: getLexGrammarData_def Let_def)
  from ws ws2 keep app ext show ?thesis by blast
qed

text \<open>
  C8. A grammar that has its own lexical rules does not always keep them. With
  \<open>case-insensitive\<close> as the only option (no \<open>lex\<close> file, no \<open>ignore-whitespaces\<close>),
  \<open>getLexGrammarData\<close> returns data that has options and no \<open>rules\<close>. \<open>getGrammar\<close> then
  takes the branch that appends, for a grammar with the lexical rule \<open>%s+\<close> of
  \<open>examples/calc.lua.g\<close>, and \<open>grammarData.lex.rules.push(...lexGrammarData.rules)\<close>
  spreads \<open>undefined\<close>: a \<open>TypeError\<close> is thrown and no grammar is built.
\<close>

theorem C8_case_insensitive_alone_throws:
  "getLexGrammarData example_lex_file
       \<lparr>lex_option = None, ignore_whitespaces = False, case_insensitive = True\<rparr>
     = Some \<lparr>rules = None, lex_options = Some [''case-insensitive'' \<mapsto> True]\<rparr>
   \<and> rules example_grammar_lex = Some [LexRuleData None ''%s+'' ''-- skip whitespace'']
   \<and> getGrammar_lex example_lex_file
        \<lparr>lex_option = None, ignore_whitespaces = False, case_insensitive = True\<rparr>
        (Some example_grammar_lex)
       = Inl JsTypeError"
  by (simp add: getGrammar_lex_def getLexGrammarData_def example_grammar_lex_def Let_def)

section \<open>Semantic actions in the generated handlers\<close>
















section \<open>Validation lists the unresolved conflicts\<close>












end
